theory Spec2Isabelle
  imports Main "HOL-Library.Sublist" "HOL-Library.Multiset"
begin

section \<open>Python string primitives used by the diff parser\<close>

text \<open>
  Python strings are modelled as \<open>string\<close> (lists of \<open>char\<close>, read as the code
  points below 256). On that range the regular-expression class \<open>\d\<close> is exactly the
  ten ASCII digits.
\<close>

abbreviation NL :: char where
  "NL \<equiv> CHR 0x0A"

text \<open>\<open>s.startswith(p)\<close>\<close>

definition startswith :: "string \<Rightarrow> string \<Rightarrow> bool" where
  "startswith s p = (take (length p) s = p)"

text \<open>\<open>s.split('\n')\<close>: always at least one piece, one more than the number of newlines.\<close>

fun split_nl :: "string \<Rightarrow> string list" where
  "split_nl [] = [[]]"
| "split_nl (c # cs) =
     (if c = NL then [] # split_nl cs
      else (case split_nl cs of
              [] \<Rightarrow> [[c]]
            | l # ls \<Rightarrow> (c # l) # ls))"

definition is_digit :: "char \<Rightarrow> bool" where
  "is_digit c = (c \<in> set ''0123456789'')"

definition digit_val :: "char \<Rightarrow> int" where
  "digit_val c =
     (case map_of (zip ''0123456789'' [0, 1, 2, 3, 4, 5, 6, 7, 8, 9]) c of
        Some v \<Rightarrow> v
      | None \<Rightarrow> 0)"

datatype py_error =
    ValueError | TypeError | AttributeError | JSONDecodeError | RecursionError
  | OtherError string

text \<open>
  \<open>int(ds)\<close>: the value of a non-empty run of decimal digits; \<open>int('')\<close> raises
  \<open>ValueError\<close>, and so does a text of more digits than the interpreter's limit for
  the conversion, \<open>sys.get_int_max_str_digits()\<close>, which is 4300 unless the program
  changes it (this one does not). Leading zeros count as digits. The only caller passes
  group 1 of the regular expression below, a run of digits; the signs, blanks and
  underscores that \<open>int\<close> also accepts cannot occur there and are rejected by the model.
\<close>

definition int_max_str_digits :: nat where
  "int_max_str_digits = 4300"

definition py_int :: "string \<Rightarrow> py_error + int" where
  "py_int ds =
     (if ds = [] \<or> \<not> list_all is_digit ds then Inl ValueError
      else if int_max_str_digits < length ds then Inl ValueError
      else Inr (foldl (\<lambda>n c. 10 * n + digit_val c) 0 ds))"

text \<open>
  \<open>re.search(r'\+(\d+)', line)\<close>: the leftmost \<open>+\<close> that is followed by a digit; group 1
  is the longest run of digits after it (the quantifier is greedy). \<open>None\<close> is "no match".
\<close>

fun re_search_plus_digits :: "string \<Rightarrow> string option" where
  "re_search_plus_digits [] = None"
| "re_search_plus_digits (c # cs) =
     (if c = CHR ''+'' \<and> takeWhile is_digit cs \<noteq> [] then Some (takeWhile is_digit cs)
      else re_search_plus_digits cs)"

section \<open>\<open>GitHubClient.parse_patch_lines\<close>\<close>

text \<open>
  The body of the \<open>for line in patch.split('\n')\<close> loop, with the two loop variables
  \<open>current_line\<close> and \<open>valid_lines\<close> passed explicitly. The branches are in the order of
  the source; the \<open>continue\<close> of the hunk-header branch is the recursive call.
\<close>

fun parse_loop :: "int \<Rightarrow> int set \<Rightarrow> string list \<Rightarrow> py_error + int set" where
  "parse_loop current_line valid_lines [] = Inr valid_lines"
| "parse_loop current_line valid_lines (line # rest) =
     (if startswith line ''@@'' then
        (case re_search_plus_digits line of
           Some grp \<Rightarrow>
             (case py_int grp of
                Inl e \<Rightarrow> Inl e
              | Inr n \<Rightarrow> parse_loop n valid_lines rest)
         | None \<Rightarrow> parse_loop current_line valid_lines rest)
      else if startswith line ''+'' \<and> \<not> startswith line ''+++'' then
        parse_loop (current_line + 1) (insert current_line valid_lines) rest
      else if startswith line '' '' then
        parse_loop (current_line + 1) (insert current_line valid_lines) rest
      else if startswith line ''-'' \<and> \<not> startswith line ''---'' then
        parse_loop current_line valid_lines rest
      else parse_loop current_line valid_lines rest)"

definition parse_patch_lines :: "string \<Rightarrow> py_error + int set" where
  "parse_patch_lines patch =
     (if patch = [] then Inr {} else parse_loop 0 {} (split_nl patch))"

section \<open>The line-by-line description of the parser\<close>

text \<open>
  The specification describes the parser as a scan that classifies every line and keeps a
  running counter, initially 0. The following definitions follow that description; they
  are compared with \<open>parse_patch_lines\<close> below.
\<close>

datatype diff_line = Hunk int | Added | Context | Removed | Other

text \<open>
  The hunk-header pattern of the specification,
  \<open>@@ -<oldStart>[,<oldCount>] +<newStart>[,<newCount>] @@...\<close>, as a recogniser that
  returns \<open>newStart\<close>.
\<close>

fun strip_prefix :: "string \<Rightarrow> string \<Rightarrow> string option" where
  "strip_prefix [] s = Some s"
| "strip_prefix (p # ps) [] = None"
| "strip_prefix (p # ps) (c # cs) = (if p = c then strip_prefix ps cs else None)"

definition opt_count :: "string \<Rightarrow> string option" where
  "opt_count s =
     (case s of
        [] \<Rightarrow> Some s
      | c # r \<Rightarrow>
          if c = CHR '','' then
            (if takeWhile is_digit r = [] then None else Some (dropWhile is_digit r))
          else Some s)"

definition digits_value :: "string \<Rightarrow> int" where
  "digits_value ds = foldl (\<lambda>n c. 10 * n + digit_val c) 0 ds"

definition spec_hunk_header :: "string \<Rightarrow> int option" where
  "spec_hunk_header l =
     (case strip_prefix ''@@ -'' l of
        None \<Rightarrow> None
      | Some r1 \<Rightarrow>
          if takeWhile is_digit r1 = [] then None
          else
            (case opt_count (dropWhile is_digit r1) of
               None \<Rightarrow> None
             | Some r2 \<Rightarrow>
                 (case strip_prefix '' +'' r2 of
                    None \<Rightarrow> None
                  | Some r3 \<Rightarrow>
                      if takeWhile is_digit r3 = [] then None
                      else
                        (case opt_count (dropWhile is_digit r3) of
                           None \<Rightarrow> None
                         | Some r4 \<Rightarrow>
                             (case strip_prefix '' @@'' r4 of
                                None \<Rightarrow> None
                              | Some r5 \<Rightarrow> Some (digits_value (takeWhile is_digit r3)))))))"

text \<open>
  The classes of lines, in the words of the specification: a line of the hunk-header
  pattern is a hunk header; a line that begins with \<open>+\<close> but not with \<open>+++\<close> is added; a
  line that begins with a blank is context; a line that begins with \<open>-\<close> but not with
  \<open>---\<close> is removed; any other line is ignored.
\<close>

definition spec_classify :: "string \<Rightarrow> diff_line" where
  "spec_classify l =
     (case spec_hunk_header l of
        Some newStart \<Rightarrow> Hunk newStart
      | None \<Rightarrow>
          if startswith l ''+'' \<and> \<not> startswith l ''+++'' then Added
          else if startswith l '' '' then Context
          else if startswith l ''-'' \<and> \<not> startswith l ''---'' then Removed
          else Other)"

fun spec_step :: "int \<times> int set \<Rightarrow> diff_line \<Rightarrow> int \<times> int set" where
  "spec_step (currentLine, result) (Hunk newStart) = (newStart, result)"
| "spec_step (currentLine, result) Added = (currentLine + 1, insert currentLine result)"
| "spec_step (currentLine, result) Context = (currentLine + 1, insert currentLine result)"
| "spec_step (currentLine, result) Removed = (currentLine, result)"
| "spec_step (currentLine, result) Other = (currentLine, result)"

definition spec_parse :: "string \<Rightarrow> int set" where
  "spec_parse patchText =
     (if patchText = [] then {}
      else snd (foldl spec_step (0, {}) (map spec_classify (split_nl patchText))))"

text \<open>
  Two properties of a line of a patch, as the code reads it. The line overflows when it
  starts with \<open>@@\<close> and the digits after its first \<open>+\<close> are more than \<open>int\<close> converts.
  The line is regular when, if it starts with \<open>@@\<close> and has a \<open>+\<close> followed by a digit,
  it has the form of a hunk header and does not overflow.
\<close>

definition header_overflow :: "string \<Rightarrow> bool" where
  "header_overflow l =
     (startswith l ''@@'' \<and>
      (case re_search_plus_digits l of
         None \<Rightarrow> False
       | Some grp \<Rightarrow> int_max_str_digits < length grp))"

definition header_regular :: "string \<Rightarrow> bool" where
  "header_regular l =
     (if startswith l ''@@'' then
        (case re_search_plus_digits l of
           None \<Rightarrow> True
         | Some grp \<Rightarrow> spec_hunk_header l \<noteq> None \<and> length grp \<le> int_max_str_digits)
      else True)"

section \<open>\<open>GitHubClient.create_review\<close>\<close>

text \<open>
  A candidate comment is the dictionary the reviewer model produced, read through
  \<open>comment.get(...)\<close>: a key that is absent reads as \<open>None\<close>. The \<open>patches\<close> argument
  is a dictionary from paths to patch texts, or \<open>None\<close> (its default).
\<close>

record candidate =
  c_path :: "string option"
  c_line :: "int option"
  c_body :: "string option"
  c_side :: "string option"

record review_comment =
  rc_path :: "string option"
  rc_line :: "int option"
  rc_body :: "string option"
  rc_side :: string

record skipped_comment =
  sk_path :: "string option"
  sk_line :: "int option"
  sk_reason :: string

text \<open>
  \<open>patches and file_path in patches\<close>, followed by \<open>patches[file_path]\<close>: the patch
  when the guard holds, \<open>None\<close> when it does not. An empty dictionary is falsy, and has
  no key either.
\<close>

definition lookup_patch :: "(string \<rightharpoonup> string) option \<Rightarrow> string option \<Rightarrow> string option" where
  "lookup_patch patches file_path =
     (case patches of
        None \<Rightarrow> None
      | Some d \<Rightarrow> (case file_path of None \<Rightarrow> None | Some p \<Rightarrow> d p))"

text \<open>\<open>line in valid_lines\<close>; \<open>None\<close> is in no set of integers.\<close>

definition line_in :: "int option \<Rightarrow> int set \<Rightarrow> bool" where
  "line_in line valid_lines = (case line of None \<Rightarrow> False | Some n \<Rightarrow> n \<in> valid_lines)"

text \<open>The dictionary appended to \<open>review_comments\<close>; \<open>comment.get("side", "RIGHT")\<close>.\<close>

definition accepted_entry :: "candidate \<Rightarrow> review_comment" where
  "accepted_entry comment =
     \<lparr>rc_path = c_path comment, rc_line = c_line comment, rc_body = c_body comment,
      rc_side = (case c_side comment of None \<Rightarrow> ''RIGHT'' | Some s \<Rightarrow> s)\<rparr>"

text \<open>The dictionary appended to \<open>skipped_comments\<close>.\<close>

definition skipped_entry :: "candidate \<Rightarrow> skipped_comment" where
  "skipped_entry comment =
     \<lparr>sk_path = c_path comment, sk_line = c_line comment, sk_reason = ''Line not in diff''\<rparr>"

text \<open>
  The \<open>for comment in comments\<close> loop. The two lists are the loop's accumulators;
  \<open>append\<close> adds at the end. An exception of \<open>parse_patch_lines\<close> would leave the loop.
\<close>

fun validate_loop ::
  "(string \<rightharpoonup> string) option \<Rightarrow> candidate list \<Rightarrow> review_comment list \<Rightarrow> skipped_comment list
     \<Rightarrow> py_error + (review_comment list \<times> skipped_comment list)" where
  "validate_loop patches [] review_comments skipped_comments =
     Inr (review_comments, skipped_comments)"
| "validate_loop patches (comment # rest) review_comments skipped_comments =
     (case lookup_patch patches (c_path comment) of
        Some patch \<Rightarrow>
          (case parse_patch_lines patch of
             Inl e \<Rightarrow> Inl e
           | Inr valid_lines \<Rightarrow>
               if \<not> line_in (c_line comment) valid_lines then
                 validate_loop patches rest review_comments
                   (skipped_comments @ [skipped_entry comment])
               else
                 validate_loop patches rest
                   (review_comments @ [accepted_entry comment]) skipped_comments)
      | None \<Rightarrow>
          validate_loop patches rest
            (review_comments @ [accepted_entry comment]) skipped_comments)"

text \<open>The patch of the specification's scenario: two added lines after a header.\<close>

definition scenario_patch :: string where
  "scenario_patch = ''@@ -0,0 +1,2 @@'' @ [NL] @ ''+hello'' @ [NL] @ ''+world'' @ [NL]"


text \<open>The decision the loop body takes for one candidate: \<open>True\<close> when it is appended to
  \<open>review_comments\<close>.\<close>

definition accepts :: "(string \<rightharpoonup> string) option \<Rightarrow> candidate \<Rightarrow> bool" where
  "accepts patches comment =
     (case lookup_patch patches (c_path comment) of
        None \<Rightarrow> True
      | Some patch \<Rightarrow>
          (case parse_patch_lines patch of
             Inl e \<Rightarrow> False
           | Inr valid_lines \<Rightarrow> line_in (c_line comment) valid_lines))"

text \<open>
  Whether \<open>parse_patch_lines\<close> returns for the patch of every candidate that has one:
  these are the patches the loop consults.
\<close>

definition consulted_parse :: "(string \<rightharpoonup> string) option \<Rightarrow> candidate list \<Rightarrow> bool" where
  "consulted_parse patches comments =
     list_all
       (\<lambda>c. case lookup_patch patches (c_path c) of
               None \<Rightarrow> True
             | Some patch \<Rightarrow>
                 (case parse_patch_lines patch of Inl e \<Rightarrow> False | Inr valid_lines \<Rightarrow> True))
       comments"

text \<open>A patch whose only line is a hunk header with a new start of 4301 digits.\<close>

definition overlong_patch :: string where
  "overlong_patch = ''@@ -1 +'' @ replicate 4301 CHR ''7'' @ '' @@''"

text \<open>
  What \<open>create_review\<close> asks of the pull request: \<open>pr.create_review(body, event,
  comments)\<close>, \<open>pr.create_issue_comment(body)\<close>, or nothing.
\<close>

datatype submission =
    CreateReview string string "review_comment list"
  | CreateIssueComment string
  | NoSubmission

text \<open>The "Create the review" block; \<open>body\<close> is truthy when it is a non-empty string.\<close>

definition submit :: "review_comment list \<Rightarrow> string option \<Rightarrow> string \<Rightarrow> submission" where
  "submit review_comments body event =
     (if review_comments \<noteq> [] then
        CreateReview
          (case body of
             None \<Rightarrow> ''Automated code review''
           | Some b \<Rightarrow> if b \<noteq> [] then b else ''Automated code review'')
          event review_comments
      else
        (case body of
           None \<Rightarrow> NoSubmission
         | Some b \<Rightarrow> if b \<noteq> [] then CreateIssueComment b else NoSubmission))"

text \<open>
  The whole method: the result is the number of skipped comments that is logged (if any)
  and the submission.
\<close>

definition create_review ::
  "candidate list \<Rightarrow> string option \<Rightarrow> string \<Rightarrow> (string \<rightharpoonup> string) option
     \<Rightarrow> py_error + (nat option \<times> submission)" where
  "create_review comments body event patches =
     (case validate_loop patches comments [] [] of
        Inl e \<Rightarrow> Inl e
      | Inr (review_comments, skipped_comments) \<Rightarrow>
          Inr (if skipped_comments \<noteq> [] then Some (length skipped_comments) else None,
               submit review_comments body event))"

section \<open>The parallel analysis phase of \<open>run_review_mode\<close>\<close>

text \<open>
  \<open>review_file\<close> with its two collaborators as parameters. A collaborator either returns
  or raises an \<open>Exception\<close> \<open>e\<close>, represented by \<open>str(e)\<close>. The result is the triple
  \<open>(filename, comments, error)\<close> of the source.
\<close>

record file_info =
  fi_filename :: string
  fi_patch :: string

definition review_file ::
  "(string \<Rightarrow> string + string) \<Rightarrow> (string \<Rightarrow> string \<Rightarrow> string \<Rightarrow> string + 'c list)
     \<Rightarrow> file_info \<Rightarrow> string \<times> 'c list option \<times> string option" where
  "review_file get_file_content analyze_file_changes fi =
     (let filename = fi_filename fi; patch = fi_patch fi in
      case get_file_content filename of
        Inl e \<Rightarrow> (filename, None, Some e)
      | Inr file_content \<Rightarrow>
          (case analyze_file_changes filename patch file_content of
             Inr comments \<Rightarrow> (filename, Some comments, None)
           | Inl e \<Rightarrow> (filename, None, Some e)))"

text \<open>
  The executor runs \<open>review_file\<close> once for every submitted file, and \<open>as_completed\<close>
  yields every future once, in the order of completion. The list \<open>completed\<close> is that
  order; \<open>future.result()\<close> is the value \<open>review_file\<close> returned.
\<close>

definition collect_results ::
  "(string \<Rightarrow> string + string) \<Rightarrow> (string \<Rightarrow> string \<Rightarrow> string \<Rightarrow> string + 'c list)
     \<Rightarrow> file_info list \<Rightarrow> (string \<times> 'c list option \<times> string option) list" where
  "collect_results get_file_content analyze_file_changes completed =
     map (review_file get_file_content analyze_file_changes) completed"

section \<open>Parsing the model's response in \<open>ClaudeCodeModel\<close>\<close>

text \<open>\<open>s.find(c)\<close> and \<open>s.rfind(c)\<close> for a single character: an index, or \<open>-1\<close>.\<close>

fun py_find :: "string \<Rightarrow> char \<Rightarrow> int" where
  "py_find [] c = -1"
| "py_find (x # xs) c =
     (if x = c then 0 else (let i = py_find xs c in if i = -1 then -1 else i + 1))"

definition py_rfind :: "string \<Rightarrow> char \<Rightarrow> int" where
  "py_rfind s c =
     (let i = py_find (rev s) c in if i = -1 then -1 else int (length s) - 1 - i)"

text \<open>\<open>s[i:j]\<close> for non-negative \<open>i\<close> and \<open>j\<close>, the only case the callers reach.\<close>

definition py_slice :: "string \<Rightarrow> int \<Rightarrow> int \<Rightarrow> string" where
  "py_slice s i j = take (nat (j - i)) (drop (nat i) s)"

text \<open>
  The values \<open>json.loads\<close> produces. \<open>json.loads\<close> itself is a parameter of the model:
  a function from texts to a value or an exception.
\<close>

datatype json =
    JNull
  | JBool bool
  | JInt int
  | JFloat string
  | JStr string
  | JArr "json list"
  | JObj "(string \<times> json) list"

definition default_analysis :: json where
  "default_analysis =
     JObj [(''action'', JStr ''no_action''),
           (''reasoning'', JStr ''Could not parse response''),
           (''changes'', JArr [])]"

text \<open>
  The \<open>try\<close> block of \<open>analyze_review\<close>, applied to the response text. Only
  \<open>json.JSONDecodeError\<close> is caught.
\<close>

definition analyze_review_parse :: "(string \<Rightarrow> py_error + json) \<Rightarrow> string \<Rightarrow> py_error + json" where
  "analyze_review_parse json_loads response =
     (let start_idx = py_find response CHR ''{'';
          end_idx = py_rfind response CHR ''}'' + 1
      in if start_idx \<noteq> -1 \<and> end_idx > start_idx then
           (case json_loads (py_slice response start_idx end_idx) of
              Inr v \<Rightarrow> Inr v
            | Inl e \<Rightarrow> if e = JSONDecodeError then Inr default_analysis else Inl e)
         else Inr default_analysis)"

text \<open>\<open>d[k] = v\<close> on a dictionary kept in insertion order.\<close>

fun dict_set :: "(string \<times> json) list \<Rightarrow> string \<Rightarrow> json \<Rightarrow> (string \<times> json) list" where
  "dict_set [] k v = [(k, v)]"
| "dict_set ((k', v') # kvs) k v =
     (if k' = k then (k, v) # kvs else (k', v') # dict_set kvs k v)"

text \<open>
  \<open>for comment in comments: comment['side'] = 'RIGHT'\<close>. Item assignment on anything but a
  dictionary raises \<open>TypeError\<close>.
\<close>

fun add_side :: "json list \<Rightarrow> py_error + json list" where
  "add_side [] = Inr []"
| "add_side (comment # rest) =
     (case comment of
        JObj kvs \<Rightarrow>
          (case add_side rest of
             Inl e \<Rightarrow> Inl e
           | Inr rest' \<Rightarrow> Inr (JObj (dict_set kvs ''side'' (JStr ''RIGHT'')) # rest'))
      | _ \<Rightarrow> Inl TypeError)"

text \<open>
  Iterating over the decoded value: a list is traversed; a dictionary yields its keys and
  a string its characters, on which item assignment fails; the other values are not
  iterable.
\<close>

definition add_side_all :: "json \<Rightarrow> py_error + json" where
  "add_side_all comments =
     (case comments of
        JArr xs \<Rightarrow> (case add_side xs of Inl e \<Rightarrow> Inl e | Inr ys \<Rightarrow> Inr (JArr ys))
      | JObj kvs \<Rightarrow> if kvs = [] then Inr comments else Inl TypeError
      | JStr s \<Rightarrow> if s = [] then Inr comments else Inl TypeError
      | _ \<Rightarrow> Inl TypeError)"

text \<open>
  The \<open>try\<close> block of \<open>review_code\<close>. The call of the command-line tool is inside it
  (\<open>call_result\<close> is its response or its exception), and \<open>except Exception\<close> turns every
  exception into the empty list.
\<close>

definition review_code_parse :: "(string \<Rightarrow> py_error + json) \<Rightarrow> py_error + string \<Rightarrow> json" where
  "review_code_parse json_loads call_result =
     (case call_result of
        Inl e \<Rightarrow> JArr []
      | Inr response \<Rightarrow>
          (let start_idx = py_find response CHR ''['';
               end_idx = py_rfind response CHR '']'' + 1
           in if start_idx \<noteq> -1 \<and> end_idx > start_idx then
                (case json_loads (py_slice response start_idx end_idx) of
                   Inl e \<Rightarrow> JArr []
                 | Inr comments \<Rightarrow>
                     (case add_side_all comments of
                        Inl e \<Rightarrow> JArr []
                      | Inr cs \<Rightarrow> cs))
              else JArr []))"

text \<open>
  The specification's wording of the extraction: the part of the text from the first
  opening bracket to the last closing bracket, if there is one.
\<close>

definition between_first_last :: "char \<Rightarrow> char \<Rightarrow> string \<Rightarrow> string option" where
  "between_first_last opn cls s =
     (let t = dropWhile (\<lambda>x. x \<noteq> opn) s;
          u = rev (dropWhile (\<lambda>x. x \<noteq> cls) (rev t))
      in if u = [] then None else Some u)"

text \<open>
  A response on which \<open>json.loads\<close> raises \<open>RecursionError\<close>: the object
  \<open>{"a":[[[...\<close> with 100000 opening brackets, closed by \<open>}\<close>.
\<close>

definition deep_response :: string where
  "deep_response =
     CHR ''{'' # (CHR 0x22 # ''a'' @ [CHR 0x22] @ '':'' @ replicate 100000 CHR ''['') @ [CHR ''}'']"

section \<open>\<open>CodeReviewer.analyze_file_changes\<close> and the model classes\<close>

text \<open>
  Attribute lookup on an instance: the instance's own dictionary, then the classes of
  its method resolution order. An attribute is a method or some value that cannot be
  called. The arguments of \<open>review_code\<close> are \<open>file_path\<close>, \<open>patch\<close>, \<open>file_content\<close>
  and \<open>pr_context\<close>.
\<close>

type_synonym review_args = "string \<times> string \<times> string \<times> (string \<times> string) list"

datatype py_attr = Method "review_args \<Rightarrow> py_error + json" | Value

record py_class =
  cls_name :: string
  cls_dict :: "string \<rightharpoonup> py_attr"

record py_object =
  obj_dict :: "string \<rightharpoonup> py_attr"
  obj_mro :: "py_class list"

fun mro_lookup :: "py_class list \<Rightarrow> string \<Rightarrow> py_attr option" where
  "mro_lookup [] name = None"
| "mro_lookup (c # cs) name =
     (case cls_dict c name of Some a \<Rightarrow> Some a | None \<Rightarrow> mro_lookup cs name)"

definition py_getattr :: "py_object \<Rightarrow> string \<Rightarrow> py_attr option" where
  "py_getattr obj name =
     (case obj_dict obj name of Some a \<Rightarrow> Some a | None \<Rightarrow> mro_lookup (obj_mro obj) name)"

definition py_hasattr :: "py_object \<Rightarrow> string \<Rightarrow> bool" where
  "py_hasattr obj name = (py_getattr obj name \<noteq> None)"

text \<open>\<open>obj.name(args)\<close>\<close>

definition call_method :: "py_object \<Rightarrow> string \<Rightarrow> review_args \<Rightarrow> py_error + json" where
  "call_method obj name args =
     (case py_getattr obj name of
        None \<Rightarrow> Inl AttributeError
      | Some (Method f) \<Rightarrow> f args
      | Some Value \<Rightarrow> Inl TypeError)"

text \<open>
  \<open>BaseModel\<close>: \<open>review_code\<close> has a body, which returns the empty list; the three abstract
  methods are attributes of the class as well.
\<close>

definition BaseModel_review_code :: "review_args \<Rightarrow> py_error + json" where
  "BaseModel_review_code args = Inr (JArr [])"

definition BaseModel :: py_class where
  "BaseModel =
     \<lparr>cls_name = ''BaseModel'',
      cls_dict = [''review_code'' \<mapsto> Method BaseModel_review_code,
                  ''analyze_review'' \<mapsto> Method (\<lambda>args. Inr JNull),
                  ''generate_code_fix'' \<mapsto> Method (\<lambda>args. Inr JNull),
                  ''generate_reply'' \<mapsto> Method (\<lambda>args. Inr JNull)]\<rparr>"

definition review_with_generic_prompt :: "review_args \<Rightarrow> py_error + json" where
  "review_with_generic_prompt args = Inr (JArr [])"

definition analyze_file_changes :: "py_object \<Rightarrow> review_args \<Rightarrow> py_error + json" where
  "analyze_file_changes model args =
     (if \<not> py_hasattr model ''review_code'' then review_with_generic_prompt args
      else call_method model ''review_code'' args)"

section \<open>Facts about the string primitives\<close>

lemma split_nl_nonempty: "split_nl s \<noteq> []"
  by (induction s) (auto split: list.splits)

lemma split_nl_single: "NL \<notin> set a \<Longrightarrow> split_nl a = [a]"
  by (induction a) auto

lemma split_nl_append: "NL \<notin> set a \<Longrightarrow> split_nl (a @ NL # b) = a # split_nl b"
  by (induction a) auto

lemma re_search_skip:
  "CHR ''+'' \<notin> set pre \<Longrightarrow> re_search_plus_digits (pre @ s) = re_search_plus_digits s"
  by (induction pre) auto

lemma re_search_digits:
  "re_search_plus_digits l = Some g \<Longrightarrow> g \<noteq> [] \<and> list_all is_digit g"
  by (induction l) (auto split: if_splits simp: list_all_iff dest: set_takeWhileD)

lemma py_int_digits:
  "g \<noteq> [] \<Longrightarrow> list_all is_digit g \<Longrightarrow> length g \<le> int_max_str_digits \<Longrightarrow>
   py_int g = Inr (digits_value g)"
  by (simp add: py_int_def digits_value_def)

lemma py_int_over: "int_max_str_digits < length g \<Longrightarrow> py_int g = Inl ValueError"
  by (simp add: py_int_def)

lemma py_int_error: "py_int g = Inl e \<Longrightarrow> e = ValueError"
  by (auto simp: py_int_def split: if_splits)

lemma re_search_py_int:
  "re_search_plus_digits l = Some g \<Longrightarrow> length g \<le> int_max_str_digits \<Longrightarrow>
   py_int g = Inr (digits_value g)"
  using re_search_digits py_int_digits by blast

lemma strip_prefix_Some: "strip_prefix p s = Some r \<longleftrightarrow> s = p @ r"
  by (induction p s rule: strip_prefix.induct) auto

lemma plus_not_digit: "is_digit c \<Longrightarrow> c \<noteq> CHR ''+''"
  by (auto simp: is_digit_def)

lemma opt_count_Some:
  "opt_count s = Some r \<Longrightarrow> \<exists>m. s = m @ r \<and> CHR ''+'' \<notin> set m"
proof (cases s)
  case Nil
  assume "opt_count s = Some r"
  with Nil show ?thesis by (simp add: opt_count_def)
next
  case (Cons c t)
  assume a: "opt_count s = Some r"
  show ?thesis
  proof (cases "c = CHR '',''")
    case True
    with a Cons have r: "r = dropWhile is_digit t" and "takeWhile is_digit t \<noteq> []"
      by (auto simp: opt_count_def split: if_splits)
    have "s = (c # takeWhile is_digit t) @ r" using Cons r by simp
    moreover have "CHR ''+'' \<notin> set (c # takeWhile is_digit t)"
      using True by (auto dest: set_takeWhileD plus_not_digit)
    ultimately show ?thesis by blast
  next
    case False
    with a Cons have "r = s" by (simp add: opt_count_def)
    then show ?thesis by (intro exI[of _ "[]"]) simp
  qed
qed

lemma spec_hunk_header_search:
  assumes "spec_hunk_header l = Some n"
  shows "startswith l ''@@'' \<and> (\<exists>g. re_search_plus_digits l = Some g \<and> digits_value g = n)"
proof -
  from assms obtain r1 r2 r3 where
    l: "l = ''@@ -'' @ r1" and
    d1: "takeWhile is_digit r1 \<noteq> []" and
    o1: "opt_count (dropWhile is_digit r1) = Some r2" and
    r2: "r2 = '' +'' @ r3" and
    d3: "takeWhile is_digit r3 \<noteq> []" and
    n: "n = digits_value (takeWhile is_digit r3)"
    by (auto simp: spec_hunk_header_def strip_prefix_Some split: option.splits if_splits)
  from o1 obtain m where m: "dropWhile is_digit r1 = m @ r2" and mp: "CHR ''+'' \<notin> set m"
    using opt_count_Some by blast
  have r1: "r1 = takeWhile is_digit r1 @ m @ r2"
    using m takeWhile_dropWhile_id[of is_digit r1] by simp
  define pre where "pre = ''@@ -'' @ takeWhile is_digit r1 @ m @ '' ''"
  have lp: "l = pre @ CHR ''+'' # r3"
    using l r1 r2 by (simp add: pre_def)
  have np: "CHR ''+'' \<notin> set pre"
    using mp by (auto simp: pre_def dest: set_takeWhileD plus_not_digit)
  have "re_search_plus_digits l = re_search_plus_digits (CHR ''+'' # r3)"
    unfolding lp using np by (rule re_search_skip)
  also have "\<dots> = Some (takeWhile is_digit r3)" using d3 by simp
  finally have "re_search_plus_digits l = Some (takeWhile is_digit r3)" .
  moreover have "startswith l ''@@''" using l by (simp add: startswith_def)
  ultimately show ?thesis using n by blast
qed

lemma spec_hunk_header_startswith:
  "\<not> startswith l ''@@'' \<Longrightarrow> spec_hunk_header l = None"
  using spec_hunk_header_search[of l] by (cases "spec_hunk_header l") auto

lemma spec_classify_no_match:
  assumes "startswith l ''@@''" and "re_search_plus_digits l = None"
  shows "spec_classify l = Other"
proof -
  have "spec_hunk_header l = None"
    using spec_hunk_header_search[of l] assms(2) by (cases "spec_hunk_header l") auto
  moreover obtain r where "l = CHR ''@'' # r"
    using assms(1) by (cases l) (auto simp: startswith_def)
  ultimately show ?thesis by (simp add: spec_classify_def startswith_def)
qed

lemma spec_classify_match:
  assumes "re_search_plus_digits l = Some g" and "spec_hunk_header l \<noteq> None"
  shows "spec_classify l = Hunk (digits_value g)"
proof -
  from assms(2) obtain n where n: "spec_hunk_header l = Some n" by auto
  with spec_hunk_header_search[of l n] assms(1) have "n = digits_value g" by auto
  with n show ?thesis by (simp add: spec_classify_def)
qed

lemma spec_classify_plain:
  "\<not> startswith l ''@@'' \<Longrightarrow>
   spec_classify l =
     (if startswith l ''+'' \<and> \<not> startswith l ''+++'' then Added
      else if startswith l '' '' then Context
      else if startswith l ''-'' \<and> \<not> startswith l ''---'' then Removed
      else Other)"
  by (simp add: spec_classify_def spec_hunk_header_startswith)

lemma parse_loop_spec:
  "list_all header_regular ls \<Longrightarrow>
   parse_loop cur acc ls = Inr (snd (foldl spec_step (cur, acc) (map spec_classify ls)))"
proof (induction ls arbitrary: cur acc)
  case Nil
  show ?case by simp
next
  case (Cons l ls)
  then have reg: "header_regular l" and rest: "list_all header_regular ls" by simp_all
  note IH = Cons.IH[OF rest]
  show ?case
  proof (cases "startswith l ''@@''")
    case False
    then show ?thesis using IH by (simp add: spec_classify_plain)
  next
    case at: True
    show ?thesis
    proof (cases "re_search_plus_digits l")
      case None
      with at IH show ?thesis by (simp add: spec_classify_no_match)
    next
      case (Some g)
      with reg at have h: "spec_hunk_header l \<noteq> None" and len: "length g \<le> int_max_str_digits"
        by (simp_all add: header_regular_def)
      have "py_int g = Inr (digits_value g)" using Some len by (rule re_search_py_int)
      moreover have "spec_classify l = Hunk (digits_value g)"
        using Some h by (rule spec_classify_match)
      ultimately show ?thesis using at Some IH by simp
    qed
  qed
qed

lemma parse_loop_returns:
  "list_all (\<lambda>l. \<not> header_overflow l) ls \<Longrightarrow> \<exists>S. parse_loop cur acc ls = Inr S"
proof (induction ls arbitrary: cur acc)
  case Nil
  show ?case by simp
next
  case (Cons l ls)
  then have ok: "\<not> header_overflow l" and rest: "list_all (\<lambda>l. \<not> header_overflow l) ls"
    by simp_all
  note IH = Cons.IH[OF rest]
  show ?case
  proof (cases "startswith l ''@@''")
    case False
    then show ?thesis using IH by simp
  next
    case at: True
    show ?thesis
    proof (cases "re_search_plus_digits l")
      case None
      with at IH show ?thesis by simp
    next
      case (Some g)
      with ok at have "length g \<le> int_max_str_digits" by (simp add: header_overflow_def)
      with Some have "py_int g = Inr (digits_value g)" by (rule re_search_py_int)
      with at Some IH show ?thesis by simp
    qed
  qed
qed

lemma parse_loop_error: "parse_loop cur acc ls = Inl e \<Longrightarrow> e = ValueError"
proof (induction ls arbitrary: cur acc)
  case Nil
  then show ?case by simp
next
  case (Cons l ls)
  then show ?case
    by (auto split: if_splits option.splits sum.splits dest: py_int_error)
qed

lemma parse_patch_lines_error: "parse_patch_lines patch = Inl e \<Longrightarrow> e = ValueError"
  by (auto simp: parse_patch_lines_def split: if_splits dest: parse_loop_error)

lemma re_search_run:
  assumes "CHR ''+'' \<notin> set pre" and "is_digit c" and "0 < n" and "takeWhile is_digit suf = []"
  shows "re_search_plus_digits (pre @ CHR ''+'' # replicate n c @ suf) = Some (replicate n c)"
proof -
  have "takeWhile is_digit (replicate n c @ suf) = replicate n c @ takeWhile is_digit suf"
    using assms(2) by (intro takeWhile_append2) auto
  then have t: "takeWhile is_digit (replicate n c @ suf) = replicate n c"
    using assms(4) by simp
  have "replicate n c \<noteq> []" using assms(3) by simp
  with t have "re_search_plus_digits (CHR ''+'' # replicate n c @ suf) = Some (replicate n c)"
    by simp
  then show ?thesis using re_search_skip[OF assms(1)] by simp
qed

lemma overflow_patch_raises:
  assumes "startswith pre ''@@''" and "CHR ''+'' \<notin> set pre" and "NL \<notin> set pre"
    and "NL \<notin> set suf" and "is_digit c" and "int_max_str_digits < n"
    and "takeWhile is_digit suf = []"
  shows "parse_patch_lines (pre @ CHR ''+'' # replicate n c @ suf) = Inl ValueError"
proof -
  let ?l = "pre @ CHR ''+'' # replicate n c @ suf"
  have cn: "c \<noteq> NL" using assms(5) by (auto simp: is_digit_def)
  then have "NL \<notin> set ?l" using assms(3,4) by auto
  then have s: "split_nl ?l = [?l]" by (rule split_nl_single)
  have n0: "0 < n" using assms(6) by simp
  have r: "re_search_plus_digits ?l = Some (replicate n c)"
    using assms(2,5) n0 assms(7) by (rule re_search_run)
  obtain r2 where "pre = CHR ''@'' # CHR ''@'' # r2"
    using assms(1) by (cases pre; cases "tl pre") (auto simp: startswith_def)
  then have at: "startswith ?l ''@@''" by (simp add: startswith_def)
  have "py_int (replicate n c) = Inl ValueError" using assms(6) by (simp add: py_int_over)
  with s r at show ?thesis by (simp add: parse_patch_lines_def)
qed

lemma overlong_patch_raises: "parse_patch_lines overlong_patch = Inl ValueError"
proof -
  have "parse_patch_lines (''@@ -1 '' @ CHR ''+'' # replicate 4301 CHR ''7'' @ '' @@'')
          = Inl ValueError"
    by (rule overflow_patch_raises)
       (simp_all add: startswith_def is_digit_def int_max_str_digits_def)
  then show ?thesis by (simp add: overlong_patch_def)
qed

section \<open>The diff parser\<close>

lemma re_search_None_iff:
  "re_search_plus_digits l = None \<longleftrightarrow>
     \<not> (\<exists>pre d post. l = pre @ CHR ''+'' # d # post \<and> is_digit d)"
proof (induction l)
  case Nil
  then show ?case by simp
next
  case (Cons c cs)
  show ?case
  proof (cases "c = CHR ''+'' \<and> takeWhile is_digit cs \<noteq> []")
    case True
    then obtain d post where "cs = d # post" "is_digit d"
      by (cases cs) (auto split: if_splits)
    then have "c # cs = [] @ CHR ''+'' # d # post \<and> is_digit d" using True by simp
    then have "\<exists>pre d post. c # cs = pre @ CHR ''+'' # d # post \<and> is_digit d" by blast
    with True show ?thesis by simp
  next
    case False
    have "(\<exists>pre d post. c # cs = pre @ CHR ''+'' # d # post \<and> is_digit d)
          \<longleftrightarrow> (\<exists>pre d post. cs = pre @ CHR ''+'' # d # post \<and> is_digit d)"
    proof
      assume "\<exists>pre d post. c # cs = pre @ CHR ''+'' # d # post \<and> is_digit d"
      then obtain pre d post where e: "c # cs = pre @ CHR ''+'' # d # post" and d: "is_digit d"
        by blast
      show "\<exists>pre d post. cs = pre @ CHR ''+'' # d # post \<and> is_digit d"
      proof (cases pre)
        case Nil
        with e d False show ?thesis by auto
      next
        case (Cons p ps)
        with e d show ?thesis by auto
      qed
    next
      assume "\<exists>pre d post. cs = pre @ CHR ''+'' # d # post \<and> is_digit d"
      then obtain pre d post where "cs = pre @ CHR ''+'' # d # post" "is_digit d" by blast
      then have "c # cs = (c # pre) @ CHR ''+'' # d # post \<and> is_digit d" by simp
      then show "\<exists>pre d post. c # cs = pre @ CHR ''+'' # d # post \<and> is_digit d" by blast
    qed
    with False Cons.IH show ?thesis by auto
  qed
qed

lemmas eval_defs = parse_patch_lines_def startswith_def is_digit_def py_int_def digit_val_def
  spec_hunk_header_def opt_count_def digits_value_def spec_classify_def spec_parse_def
  int_max_str_digits_def header_regular_def header_overflow_def

text \<open>
  Claim C1, as amended. For every patch text in which each line that starts with \<open>@@\<close>
  either has no \<open>+\<close> directly followed by a digit, or has the form of a hunk header with a
  new start of at most 4300 digits, \<open>parse_patch_lines\<close> returns exactly the set that the
  line-by-line scan of the specification computes from counter 0 and the empty set: a
  hunk header sets the counter to its \<open>newStart\<close>; a line that begins with \<open>+\<close> but not
  with \<open>+++\<close> inserts the counter and increments it; so does a line that begins with a
  blank; a line that begins with \<open>-\<close> but not with \<open>---\<close> changes nothing; any other line
  changes nothing. The empty patch gives the empty set.
\<close>

theorem parse_patch_lines_scan:
  "(list_all header_regular (split_nl patch) \<longrightarrow>
      parse_patch_lines patch = Inr (spec_parse patch)) \<and>
   parse_patch_lines [] = Inr {} \<and>
   (spec_hunk_header lh = Some newStart \<longrightarrow> spec_classify lh = Hunk newStart) \<and>
   (startswith la ''+'' \<and> \<not> startswith la ''+++'' \<longrightarrow> spec_classify la = Added) \<and>
   (startswith lc '' '' \<longrightarrow> spec_classify lc = Context) \<and>
   (startswith lr ''-'' \<and> \<not> startswith lr ''---'' \<longrightarrow> spec_classify lr = Removed) \<and>
   (spec_hunk_header lo = None \<and> \<not> (startswith lo ''+'' \<and> \<not> startswith lo ''+++'') \<and>
    \<not> startswith lo '' '' \<and> \<not> (startswith lo ''-'' \<and> \<not> startswith lo ''---'')
      \<longrightarrow> spec_classify lo = Other)"
proof -
  have 1: "list_all header_regular (split_nl patch) \<longrightarrow>
      parse_patch_lines patch = Inr (spec_parse patch)"
    by (simp add: parse_patch_lines_def spec_parse_def parse_loop_spec)
  have 2: "parse_patch_lines [] = Inr {}" by (simp add: parse_patch_lines_def)
  have 3: "spec_hunk_header lh = Some newStart \<longrightarrow> spec_classify lh = Hunk newStart"
    by (simp add: spec_classify_def)
  have 4: "startswith la ''+'' \<and> \<not> startswith la ''+++'' \<longrightarrow> spec_classify la = Added"
  proof
    assume a: "startswith la ''+'' \<and> \<not> startswith la ''+++''"
    then have "\<not> startswith la ''@@''" by (cases la) (auto simp: startswith_def)
    with a show "spec_classify la = Added" by (simp add: spec_classify_plain)
  qed
  have 5: "startswith lc '' '' \<longrightarrow> spec_classify lc = Context"
  proof
    assume a: "startswith lc '' ''"
    then have "\<not> startswith lc ''@@''" "\<not> startswith lc ''+''"
      by (cases lc; auto simp: startswith_def)+
    with a show "spec_classify lc = Context" by (simp add: spec_classify_plain)
  qed
  have 6: "startswith lr ''-'' \<and> \<not> startswith lr ''---'' \<longrightarrow> spec_classify lr = Removed"
  proof
    assume a: "startswith lr ''-'' \<and> \<not> startswith lr ''---''"
    then have "\<not> startswith lr ''@@''" "\<not> startswith lr ''+''" "\<not> startswith lr '' ''"
      by (cases lr; auto simp: startswith_def)+
    with a show "spec_classify lr = Removed" by (simp add: spec_classify_plain)
  qed
  have 7: "spec_hunk_header lo = None \<and> \<not> (startswith lo ''+'' \<and> \<not> startswith lo ''+++'') \<and>
    \<not> startswith lo '' '' \<and> \<not> (startswith lo ''-'' \<and> \<not> startswith lo ''---'')
      \<longrightarrow> spec_classify lo = Other"
    by (simp add: spec_classify_def)
  from 1 2 3 4 5 6 7 show ?thesis by blast
qed

theorem parse_patch_lines_scan_witness:
  "list_all header_regular
     (split_nl (''@@ -3 +3,2 @@'' @ [NL] @ ''+x'' @ [NL] @ '' y'' @ [NL] @ ''-z'' @ [NL] @ ''@@ w'')) \<and>
   parse_patch_lines (''@@ -3 +3,2 @@'' @ [NL] @ ''+x'' @ [NL] @ '' y'' @ [NL] @ ''-z'' @ [NL] @ ''@@ w'')
     = Inr {3, 4} \<and>
   spec_parse (''@@ -3 +3,2 @@'' @ [NL] @ ''+x'' @ [NL] @ '' y'' @ [NL] @ ''-z'' @ [NL] @ ''@@ w'')
     = {3, 4} \<and>
   spec_hunk_header ''@@ -3 +3,2 @@'' = Some 3 \<and> spec_classify ''@@ -3 +3,2 @@'' = Hunk 3 \<and>
   startswith ''+x'' ''+'' \<and> \<not> startswith ''+x'' ''+++'' \<and> spec_classify ''+x'' = Added \<and>
   startswith '' y'' '' '' \<and> spec_classify '' y'' = Context \<and>
   startswith ''-z'' ''-'' \<and> \<not> startswith ''-z'' ''---'' \<and> spec_classify ''-z'' = Removed \<and>
   spec_hunk_header ''@@ w'' = None \<and> \<not> startswith ''@@ w'' ''+'' \<and>
   \<not> startswith ''@@ w'' '' '' \<and> \<not> startswith ''@@ w'' ''-'' \<and>
   spec_classify ''@@ w'' = Other"
proof -
  let ?p = "''@@ -3 +3,2 @@'' @ [NL] @ ''+x'' @ [NL] @ '' y'' @ [NL] @ ''-z'' @ [NL] @ ''@@ w''"
  have r: "list_all header_regular (split_nl ?p)"
    by (simp add: eval_defs)
  have s: "spec_parse ?p = {3, 4}"
    by (simp add: eval_defs insert_commute)
  have h: "spec_hunk_header ''@@ -3 +3,2 @@'' = Some 3" "spec_hunk_header ''@@ w'' = None"
    by (simp_all add: eval_defs)
  have b: "startswith ''+x'' ''+''" "\<not> startswith ''+x'' ''+++''" "startswith '' y'' '' ''"
    "startswith ''-z'' ''-''" "\<not> startswith ''-z'' ''---''" "\<not> startswith ''@@ w'' ''+''"
    "\<not> startswith ''@@ w'' '' ''" "\<not> startswith ''@@ w'' ''-''"
    by (simp_all add: startswith_def)
  note t = parse_patch_lines_scan [of ?p "''@@ -3 +3,2 @@''" 3 "''+x''" "'' y''" "''-z''" "''@@ w''"]
  from t r s have 1: "parse_patch_lines ?p = Inr {3, 4}" by simp
  from t h(1) have 2: "spec_classify ''@@ -3 +3,2 @@'' = Hunk 3" by blast
  from t b have 3: "spec_classify ''+x'' = Added" by blast
  from t b have 4: "spec_classify '' y'' = Context" by blast
  from t b have 5: "spec_classify ''-z'' = Removed" by blast
  from t h(2) b have 6: "spec_classify ''@@ w'' = Other" by blast
  from r s h b 1 2 3 4 5 6 show ?thesis by blast
qed

text \<open>
  Claim C1, as stated, fails in two ways. A line that starts with \<open>@@\<close> and is not a hunk
  header, but mentions \<open>+42\<close>, is not ignored: it moves the counter to 42, so the added
  line after it is numbered 42 where the scan of the claim gives 0. And a hunk header
  whose new start has 4301 digits makes the parser raise \<open>ValueError\<close> where the claim
  promises a set.
\<close>

theorem parse_patch_lines_scan_counterexample:
  "spec_hunk_header ''@@ note: see +42'' = None \<and>
   parse_patch_lines (''@@ note: see +42'' @ [NL] @ ''+x'') = Inr {42} \<and>
   spec_parse (''@@ note: see +42'' @ [NL] @ ''+x'') = {0} \<and>
   parse_patch_lines (''@@ -1 +'' @ replicate 4301 CHR ''0'' @ '' @@'') = Inl ValueError"
proof -
  have 1: "spec_hunk_header ''@@ note: see +42'' = None" by (simp add: eval_defs)
  have 2: "parse_patch_lines (''@@ note: see +42'' @ [NL] @ ''+x'') = Inr {42}"
    by (simp add: eval_defs)
  have 3: "spec_parse (''@@ note: see +42'' @ [NL] @ ''+x'') = {0}"
    by (simp add: eval_defs)
  have "parse_patch_lines (''@@ -1 '' @ CHR ''+'' # replicate 4301 CHR ''0'' @ '' @@'')
          = Inl ValueError"
    by (rule overflow_patch_raises)
       (simp_all add: startswith_def is_digit_def int_max_str_digits_def)
  then have 4: "parse_patch_lines (''@@ -1 +'' @ replicate 4301 CHR ''0'' @ '' @@'')
          = Inl ValueError"
    by simp
  from 1 2 3 4 show ?thesis by blast
qed

text \<open>
  Claim C2, as amended. For the patch made of the hunk header \<open>@@ -1,3 +10,3 @@\<close>, one
  context line, one added line, one removed line and one context line, whatever the
  contents of those lines (an added text must not itself begin with \<open>++\<close>), the parser
  returns exactly \<open>{10, 11, 12}\<close>: the last context line is inserted as 12, and 13 is only
  the value of the counter afterwards.
\<close>

theorem synthetic_patch_lines:
  "NL \<notin> set c1 \<and> NL \<notin> set a \<and> NL \<notin> set r \<and> NL \<notin> set c2 \<and> \<not> startswith a ''++'' \<Longrightarrow>
   parse_patch_lines (''@@ -1,3 +10,3 @@'' @ [NL] @ '' '' @ c1 @ [NL] @ ''+'' @ a @ [NL]
                      @ ''-'' @ r @ [NL] @ '' '' @ c2) = Inr {10, 11, 12}"
proof -
  assume h: "NL \<notin> set c1 \<and> NL \<notin> set a \<and> NL \<notin> set r \<and> NL \<notin> set c2 \<and> \<not> startswith a ''++''"
  have s: "split_nl (''@@ -1,3 +10,3 @@'' @ [NL] @ '' '' @ c1 @ [NL] @ ''+'' @ a @ [NL]
                      @ ''-'' @ r @ [NL] @ '' '' @ c2)
        = [''@@ -1,3 +10,3 @@'', '' '' @ c1, ''+'' @ a, ''-'' @ r, '' '' @ c2]"
    using h split_nl_append[of "''@@ -1,3 +10,3 @@''"] split_nl_append[of "'' '' @ c1"]
      split_nl_append[of "''+'' @ a"] split_nl_append[of "''-'' @ r"]
      split_nl_single[of "'' '' @ c2"]
    by simp
  show ?thesis
    unfolding parse_patch_lines_def s using h
    by (simp add: startswith_def is_digit_def py_int_def digit_val_def int_max_str_digits_def
        insert_commute)
qed

theorem synthetic_patch_lines_witness:
  "NL \<notin> set ''a'' \<and> \<not> startswith ''b'' ''++'' \<and>
   parse_patch_lines (''@@ -1,3 +10,3 @@'' @ [NL] @ '' a'' @ [NL] @ ''+b'' @ [NL]
                      @ ''-c'' @ [NL] @ '' d'') = Inr {10, 11, 12}"
  using synthetic_patch_lines [of "''a''" "''b''" "''c''" "''d''"]
  by (simp add: startswith_def)

text \<open>
  Claim C2, as stated, fails: on a concrete patch of that shape the result is not
  \<open>{10, 11, 13}\<close>.
\<close>

theorem synthetic_patch_lines_counterexample:
  "parse_patch_lines (''@@ -1,3 +10,3 @@'' @ [NL] @ '' p'' @ [NL] @ ''+q'' @ [NL]
                      @ ''-s'' @ [NL] @ '' t'') \<noteq> Inr {10, 11, 13}"
proof -
  have "parse_patch_lines (''@@ -1,3 +10,3 @@'' @ [NL] @ '' p'' @ [NL] @ ''+q'' @ [NL]
                      @ ''-s'' @ [NL] @ '' t'') = Inr {10, 11, 12}"
    by (simp add: eval_defs insert_commute)
  moreover have "(12::int) \<in> {10, 11, 12}" by simp
  moreover have "(12::int) \<notin> {10, 11, 13}" by simp
  ultimately show ?thesis by (metis sum.inject(2))
qed

text \<open>
  Claim C6, as amended. \<open>parse_patch_lines\<close> returns a set, and raises nothing, for every
  input string in which no line that starts with \<open>@@\<close> has more than 4300 digits after
  its first \<open>+\<close> that is followed by a digit. A line that starts with \<open>@@\<close> never inserts
  anything; it leaves the counter unchanged when the line contains no \<open>+\<close> directly
  followed by a digit, and otherwise (with at most 4300 digits) sets the counter to the
  number after the first such \<open>+\<close>, whether or not the line has the full form of a hunk
  header.
\<close>

theorem hunk_header_line_effect:
  "(list_all (\<lambda>l. \<not> header_overflow l) (split_nl patch) \<longrightarrow>
      (\<exists>S. parse_patch_lines patch = Inr S)) \<and>
   (startswith l ''@@'' \<and> \<not> header_overflow l \<longrightarrow>
      parse_loop cur acc (l # rest) =
        parse_loop (case re_search_plus_digits l of None \<Rightarrow> cur | Some g \<Rightarrow> digits_value g)
          acc rest) \<and>
   (re_search_plus_digits l = None \<longleftrightarrow>
      \<not> (\<exists>pre d post. l = pre @ CHR ''+'' # d # post \<and> is_digit d))"
proof -
  have 1: "list_all (\<lambda>l. \<not> header_overflow l) (split_nl patch) \<longrightarrow>
      (\<exists>S. parse_patch_lines patch = Inr S)"
    using parse_loop_returns[of "split_nl patch" 0 "{}"]
    by (simp add: parse_patch_lines_def)
  have 2: "startswith l ''@@'' \<and> \<not> header_overflow l \<longrightarrow>
      parse_loop cur acc (l # rest) =
        parse_loop (case re_search_plus_digits l of None \<Rightarrow> cur | Some g \<Rightarrow> digits_value g)
          acc rest"
  proof
    assume a: "startswith l ''@@'' \<and> \<not> header_overflow l"
    show "parse_loop cur acc (l # rest) =
        parse_loop (case re_search_plus_digits l of None \<Rightarrow> cur | Some g \<Rightarrow> digits_value g)
          acc rest"
    proof (cases "re_search_plus_digits l")
      case None
      with a show ?thesis by simp
    next
      case (Some g)
      with a have "length g \<le> int_max_str_digits" by (auto simp: header_overflow_def)
      with Some have "py_int g = Inr (digits_value g)" by (rule re_search_py_int)
      with a Some show ?thesis by simp
    qed
  qed
  from 1 2 re_search_None_iff[of l] show ?thesis by blast
qed

theorem hunk_header_line_effect_witness:
  "list_all (\<lambda>l. \<not> header_overflow l) (split_nl (''@@ +5'' @ [NL] @ ''+x'')) \<and>
   parse_patch_lines (''@@ +5'' @ [NL] @ ''+x'') = Inr {5} \<and>
   startswith ''@@ binary @@'' ''@@'' \<and> \<not> header_overflow ''@@ binary @@'' \<and>
   parse_loop 7 {6} [''@@ binary @@'', ''+x''] = parse_loop 7 {6} [''+x''] \<and>
   parse_loop 7 {6} [''@@ binary @@'', ''+x''] = Inr {6, 7} \<and>
   re_search_plus_digits ''@@ binary @@'' = None"
proof -
  have o: "list_all (\<lambda>l. \<not> header_overflow l) (split_nl (''@@ +5'' @ [NL] @ ''+x''))"
    by (simp add: eval_defs)
  have v: "parse_patch_lines (''@@ +5'' @ [NL] @ ''+x'') = Inr {5}"
    by (simp add: eval_defs)
  have "\<exists>S. parse_patch_lines (''@@ +5'' @ [NL] @ ''+x'') = Inr S"
    using hunk_header_line_effect [of "''@@ +5'' @ [NL] @ ''+x''" "''@@ binary @@''" 7 "{6}"
        "[''+x'']"] o
    by blast
  have b: "startswith ''@@ binary @@'' ''@@''" "\<not> header_overflow ''@@ binary @@''"
    "re_search_plus_digits ''@@ binary @@'' = None"
    by (simp_all add: eval_defs)
  have "parse_loop 7 {6} [''@@ binary @@'', ''+x''] =
      parse_loop (case re_search_plus_digits ''@@ binary @@'' of None \<Rightarrow> 7
                  | Some g \<Rightarrow> digits_value g) {6} [''+x'']"
    using hunk_header_line_effect [of "''@@ +5'' @ [NL] @ ''+x''" "''@@ binary @@''" 7 "{6}"
        "[''+x'']"] b
    by blast
  then have 1: "parse_loop 7 {6} [''@@ binary @@'', ''+x''] = parse_loop 7 {6} [''+x'']"
    using b(3) by simp
  have "parse_loop 7 {6} [''+x''] = Inr {6, 7}"
    by (simp add: startswith_def insert_commute)
  with 1 have 2: "parse_loop 7 {6} [''@@ binary @@'', ''+x''] = Inr {6, 7}" by simp
  from o v b 1 2 show ?thesis by blast
qed

text \<open>
  Claim C6, as stated, fails in two ways. The line \<open>@@ -1,3  +10,3 @@\<close> (two blanks) does
  not have the form of a hunk header, yet it moves the counter to 10, so the added line
  after it is numbered 10 and not 0. And on a \<open>@@\<close> line with 4301 digits after its \<open>+\<close>
  the parser raises \<open>ValueError\<close>.
\<close>

theorem malformed_header_counterexample:
  "spec_hunk_header ''@@ -1,3  +10,3 @@'' = None \<and>
   parse_patch_lines (''@@ -1,3  +10,3 @@'' @ [NL] @ ''+x'') = Inr {10} \<and>
   parse_patch_lines ''+x'' = Inr {0} \<and>
   parse_patch_lines (''@@ +'' @ replicate 4301 CHR ''1'') = Inl ValueError"
proof -
  have 1: "spec_hunk_header ''@@ -1,3  +10,3 @@'' = None" by (simp add: eval_defs)
  have 2: "parse_patch_lines (''@@ -1,3  +10,3 @@'' @ [NL] @ ''+x'') = Inr {10}"
    by (simp add: eval_defs)
  have 3: "parse_patch_lines ''+x'' = Inr {0}" by (simp add: eval_defs)
  have "parse_patch_lines (''@@ '' @ CHR ''+'' # replicate 4301 CHR ''1'' @ []) = Inl ValueError"
    by (rule overflow_patch_raises)
       (simp_all add: startswith_def is_digit_def int_max_str_digits_def)
  then have 4: "parse_patch_lines (''@@ +'' @ replicate 4301 CHR ''1'') = Inl ValueError"
    by simp
  from 1 2 3 4 show ?thesis by blast
qed

section \<open>Facts about validation\<close>

lemma consulted_parse_Cons:
  "consulted_parse patches (c # cs) \<longleftrightarrow>
     (case lookup_patch patches (c_path c) of
        None \<Rightarrow> True
      | Some patch \<Rightarrow> (\<exists>S. parse_patch_lines patch = Inr S)) \<and>
     consulted_parse patches cs"
  by (auto simp: consulted_parse_def split: option.splits sum.splits)

lemma validate_loop_split:
  "consulted_parse patches comments \<Longrightarrow>
   validate_loop patches comments rcs sks =
     Inr (rcs @ map accepted_entry (filter (accepts patches) comments),
          sks @ map skipped_entry (filter (\<lambda>c. \<not> accepts patches c) comments))"
proof (induction comments arbitrary: rcs sks)
  case Nil
  show ?case by simp
next
  case (Cons c cs)
  then have rest: "consulted_parse patches cs" by (simp add: consulted_parse_Cons)
  note IH = Cons.IH[OF rest]
  show ?case
  proof (cases "lookup_patch patches (c_path c)")
    case None
    then have "accepts patches c" by (simp add: accepts_def)
    with None IH show ?thesis by simp
  next
    case (Some patch)
    with Cons.prems obtain S where S: "parse_patch_lines patch = Inr S"
      by (auto simp: consulted_parse_Cons)
    show ?thesis
    proof (cases "line_in (c_line c) S")
      case True
      with Some S have "accepts patches c" by (simp add: accepts_def)
      with Some S True IH show ?thesis by simp
    next
      case False
      with Some S have "\<not> accepts patches c" by (simp add: accepts_def)
      with Some S False IH show ?thesis by simp
    qed
  qed
qed

lemma accepts_cong:
  assumes "c_path c' = c_path c" and "c_line c' = c_line c"
  shows "accepts patches c' = accepts patches c"
proof (cases "lookup_patch patches (c_path c)")
  case None
  with assms show ?thesis by (simp add: accepts_def)
next
  case (Some patch)
  with assms show ?thesis by (cases "parse_patch_lines patch") (simp_all add: accepts_def)
qed

lemma accepted_entry_mem:
  assumes "c \<in> set comments"
  shows "accepted_entry c \<in> set (map accepted_entry (filter (accepts patches) comments))
     \<longleftrightarrow> accepts patches c"
proof
  assume "accepted_entry c \<in> set (map accepted_entry (filter (accepts patches) comments))"
  then obtain c' where c': "accepts patches c'" "accepted_entry c' = accepted_entry c"
    by auto
  from c'(2) have "rc_path (accepted_entry c') = rc_path (accepted_entry c)"
    "rc_line (accepted_entry c') = rc_line (accepted_entry c)" by simp_all
  then have "c_path c' = c_path c" "c_line c' = c_line c"
    by (simp_all add: accepted_entry_def)
  then show "accepts patches c" using c'(1) accepts_cong by blast
next
  assume "accepts patches c"
  with assms show "accepted_entry c \<in> set (map accepted_entry (filter (accepts patches) comments))"
    by simp
qed

lemma skipped_entry_mem:
  assumes "c \<in> set comments"
  shows "skipped_entry c \<in> set (map skipped_entry (filter (\<lambda>c. \<not> accepts patches c) comments))
     \<longleftrightarrow> \<not> accepts patches c"
proof
  assume "skipped_entry c \<in> set (map skipped_entry (filter (\<lambda>c. \<not> accepts patches c) comments))"
  then obtain c' where c': "\<not> accepts patches c'" "skipped_entry c' = skipped_entry c"
    by auto
  from c'(2) have "sk_path (skipped_entry c') = sk_path (skipped_entry c)"
    "sk_line (skipped_entry c') = sk_line (skipped_entry c)" by simp_all
  then have "c_path c' = c_path c" "c_line c' = c_line c"
    by (simp_all add: skipped_entry_def)
  then show "\<not> accepts patches c" using c'(1) accepts_cong by blast
next
  assume "\<not> accepts patches c"
  with assms show "skipped_entry c \<in> set (map skipped_entry (filter (\<lambda>c. \<not> accepts patches c) comments))"
    by simp
qed

section \<open>Validation of candidate comments\<close>

lemma scenario_lines: "parse_patch_lines scenario_patch = Inr {1, 2}"
  by (simp add: scenario_patch_def eval_defs insert_commute)

text \<open>
  Claim C3, as amended. Provided \<open>parse_patch_lines\<close> returns for every patch that the
  loop consults: for every candidate whose path has a patch in \<open>patches\<close>, the validation
  loop of \<open>create_review\<close> accepts the candidate if and only if its line is in
  \<open>parse_patch_lines\<close> of that patch, and otherwise records it in the skipped list; every
  skipped record has the reason \<open>Line not in diff\<close>. For the patch
  \<open>@@ -0,0 +1,2 @@\n+hello\n+world\n\<close>, a candidate at line 1 is accepted and a candidate
  at line 3 is skipped with that reason.
\<close>

theorem validation_by_line_set:
  "(consulted_parse patches comments \<longrightarrow>
     (\<exists>acc skp. validate_loop patches comments [] [] = Inr (acc, skp) \<and>
        (\<forall>s\<in>set skp. sk_reason s = ''Line not in diff'') \<and>
        (\<forall>c\<in>set comments. \<forall>patch. lookup_patch patches (c_path c) = Some patch \<longrightarrow>
           (\<exists>valid_lines. parse_patch_lines patch = Inr valid_lines \<and>
              (accepted_entry c \<in> set acc \<longleftrightarrow> line_in (c_line c) valid_lines) \<and>
              (skipped_entry c \<in> set skp \<longleftrightarrow> \<not> line_in (c_line c) valid_lines))))) \<and>
   validate_loop (Some [path \<mapsto> scenario_patch])
      [\<lparr>c_path = Some path, c_line = Some 1, c_body = b1, c_side = None\<rparr>,
       \<lparr>c_path = Some path, c_line = Some 3, c_body = b3, c_side = None\<rparr>] [] []
     = Inr ([\<lparr>rc_path = Some path, rc_line = Some 1, rc_body = b1, rc_side = ''RIGHT''\<rparr>],
            [\<lparr>sk_path = Some path, sk_line = Some 3, sk_reason = ''Line not in diff''\<rparr>])"
proof (intro conjI impI)
  assume cp: "consulted_parse patches comments"
  let ?acc = "map accepted_entry (filter (accepts patches) comments)"
  let ?skp = "map skipped_entry (filter (\<lambda>c. \<not> accepts patches c) comments)"
  have v: "validate_loop patches comments [] [] = Inr (?acc, ?skp)"
    using validate_loop_split[OF cp, of "[]" "[]"] by simp
  have r: "\<forall>s\<in>set ?skp. sk_reason s = ''Line not in diff''"
    by (auto simp: skipped_entry_def)
  have m: "\<forall>c\<in>set comments. \<forall>patch. lookup_patch patches (c_path c) = Some patch \<longrightarrow>
         (\<exists>valid_lines. parse_patch_lines patch = Inr valid_lines \<and>
            (accepted_entry c \<in> set ?acc \<longleftrightarrow> line_in (c_line c) valid_lines) \<and>
            (skipped_entry c \<in> set ?skp \<longleftrightarrow> \<not> line_in (c_line c) valid_lines))"
  proof (intro ballI allI impI)
    fix c patch
    assume c: "c \<in> set comments" and p: "lookup_patch patches (c_path c) = Some patch"
    from cp c p obtain S where S: "parse_patch_lines patch = Inr S"
      by (cases "parse_patch_lines patch")
         (auto simp: consulted_parse_def list_all_iff split: option.splits sum.splits)
    have a: "accepts patches c \<longleftrightarrow> line_in (c_line c) S"
      using p S by (simp add: accepts_def)
    show "\<exists>valid_lines. parse_patch_lines patch = Inr valid_lines \<and>
            (accepted_entry c \<in> set ?acc \<longleftrightarrow> line_in (c_line c) valid_lines) \<and>
            (skipped_entry c \<in> set ?skp \<longleftrightarrow> \<not> line_in (c_line c) valid_lines)"
      using accepted_entry_mem[OF c, of patches] skipped_entry_mem[OF c, of patches] a S
      by blast
  qed
  from v r m show "\<exists>acc skp. validate_loop patches comments [] [] = Inr (acc, skp) \<and>
      (\<forall>s\<in>set skp. sk_reason s = ''Line not in diff'') \<and>
      (\<forall>c\<in>set comments. \<forall>patch. lookup_patch patches (c_path c) = Some patch \<longrightarrow>
         (\<exists>valid_lines. parse_patch_lines patch = Inr valid_lines \<and>
            (accepted_entry c \<in> set acc \<longleftrightarrow> line_in (c_line c) valid_lines) \<and>
            (skipped_entry c \<in> set skp \<longleftrightarrow> \<not> line_in (c_line c) valid_lines)))"
    by blast
next
  show "validate_loop (Some [path \<mapsto> scenario_patch])
      [\<lparr>c_path = Some path, c_line = Some 1, c_body = b1, c_side = None\<rparr>,
       \<lparr>c_path = Some path, c_line = Some 3, c_body = b3, c_side = None\<rparr>] [] []
     = Inr ([\<lparr>rc_path = Some path, rc_line = Some 1, rc_body = b1, rc_side = ''RIGHT''\<rparr>],
            [\<lparr>sk_path = Some path, sk_line = Some 3, sk_reason = ''Line not in diff''\<rparr>])"
    by (simp add: lookup_patch_def scenario_lines line_in_def accepted_entry_def skipped_entry_def)
qed

theorem validation_by_line_set_witness:
  "consulted_parse (Some [''a.py'' \<mapsto> scenario_patch])
     [\<lparr>c_path = Some ''a.py'', c_line = Some 1, c_body = Some ''first'', c_side = None\<rparr>,
      \<lparr>c_path = Some ''a.py'', c_line = Some 3, c_body = Some ''third'', c_side = None\<rparr>] \<and>
   lookup_patch (Some [''a.py'' \<mapsto> scenario_patch]) (Some ''a.py'') = Some scenario_patch \<and>
   parse_patch_lines scenario_patch = Inr {1, 2} \<and>
   line_in (Some 1) {1, 2} \<and> \<not> line_in (Some 3) {1, 2} \<and>
   (\<exists>acc skp.
      validate_loop (Some [''a.py'' \<mapsto> scenario_patch])
        [\<lparr>c_path = Some ''a.py'', c_line = Some 1, c_body = Some ''first'', c_side = None\<rparr>,
         \<lparr>c_path = Some ''a.py'', c_line = Some 3, c_body = Some ''third'', c_side = None\<rparr>] [] []
        = Inr (acc, skp) \<and>
      accepted_entry
        \<lparr>c_path = Some ''a.py'', c_line = Some 1, c_body = Some ''first'', c_side = None\<rparr>
        \<in> set acc \<and>
      accepted_entry
        \<lparr>c_path = Some ''a.py'', c_line = Some 3, c_body = Some ''third'', c_side = None\<rparr>
        \<notin> set acc \<and>
      skipped_entry
        \<lparr>c_path = Some ''a.py'', c_line = Some 3, c_body = Some ''third'', c_side = None\<rparr>
        \<in> set skp \<and>
      skipped_entry
        \<lparr>c_path = Some ''a.py'', c_line = Some 1, c_body = Some ''first'', c_side = None\<rparr>
        \<notin> set skp)"
proof -
  let ?P = "Some [''a.py'' \<mapsto> scenario_patch]"
  let ?c1 = "\<lparr>c_path = Some ''a.py'', c_line = Some 1, c_body = Some ''first'', c_side = None\<rparr>"
  let ?c3 = "\<lparr>c_path = Some ''a.py'', c_line = Some 3, c_body = Some ''third'', c_side = None\<rparr>"
  have cp: "consulted_parse ?P [?c1, ?c3]"
    by (simp add: consulted_parse_def lookup_patch_def scenario_lines)
  have l: "lookup_patch ?P (Some ''a.py'') = Some scenario_patch"
    by (simp add: lookup_patch_def)
  have li: "line_in (Some 1) {1, 2}" "\<not> line_in (Some 3) {1, 2}"
    by (simp_all add: line_in_def)
  from validation_by_line_set [of ?P "[?c1, ?c3]" "''a.py''" "Some ''first''" "Some ''third''"] cp
  obtain acc skp where v: "validate_loop ?P [?c1, ?c3] [] [] = Inr (acc, skp)"
    and m: "\<forall>c\<in>set [?c1, ?c3]. \<forall>patch. lookup_patch ?P (c_path c) = Some patch \<longrightarrow>
         (\<exists>valid_lines. parse_patch_lines patch = Inr valid_lines \<and>
            (accepted_entry c \<in> set acc \<longleftrightarrow> line_in (c_line c) valid_lines) \<and>
            (skipped_entry c \<in> set skp \<longleftrightarrow> \<not> line_in (c_line c) valid_lines))"
    by blast
  from m l have "\<exists>valid_lines. parse_patch_lines scenario_patch = Inr valid_lines \<and>
            (accepted_entry ?c1 \<in> set acc \<longleftrightarrow> line_in (c_line ?c1) valid_lines) \<and>
            (skipped_entry ?c1 \<in> set skp \<longleftrightarrow> \<not> line_in (c_line ?c1) valid_lines)"
    by simp
  then have 1: "accepted_entry ?c1 \<in> set acc" "skipped_entry ?c1 \<notin> set skp"
    using li by (simp_all add: scenario_lines)
  from m l have "\<exists>valid_lines. parse_patch_lines scenario_patch = Inr valid_lines \<and>
            (accepted_entry ?c3 \<in> set acc \<longleftrightarrow> line_in (c_line ?c3) valid_lines) \<and>
            (skipped_entry ?c3 \<in> set skp \<longleftrightarrow> \<not> line_in (c_line ?c3) valid_lines)"
    by simp
  then have 3: "accepted_entry ?c3 \<notin> set acc" "skipped_entry ?c3 \<in> set skp"
    using li by (simp_all add: scenario_lines)
  from cp l scenario_lines li v 1 3 show ?thesis by blast
qed

text \<open>
  Claim C3, as stated, fails: the candidate for \<open>g.py\<close> has a patch and its line 0 is in
  the set of that patch, but it is not accepted, because the patch of the next
  candidate has a hunk header with a new start of 4301 digits and \<open>parse_patch_lines\<close>
  raises \<open>ValueError\<close> out of the loop.
\<close>

theorem validation_by_line_set_counterexample:
  "lookup_patch (Some [''g.py'' \<mapsto> ''+x'', ''b.py'' \<mapsto> overlong_patch]) (Some ''g.py'')
     = Some ''+x'' \<and>
   parse_patch_lines ''+x'' = Inr {0} \<and> line_in (Some 0) {0} \<and>
   validate_loop (Some [''g.py'' \<mapsto> ''+x'', ''b.py'' \<mapsto> overlong_patch])
      [\<lparr>c_path = Some ''g.py'', c_line = Some 0, c_body = None, c_side = None\<rparr>,
       \<lparr>c_path = Some ''b.py'', c_line = Some 1, c_body = None, c_side = None\<rparr>] [] []
     = Inl ValueError"
proof -
  have p: "parse_patch_lines ''+x'' = Inr {0}" by (simp add: eval_defs)
  then show ?thesis
    by (simp add: lookup_patch_def line_in_def overlong_patch_raises)
qed

text \<open>
  Claim C4, as amended. Provided \<open>parse_patch_lines\<close> returns for every patch that the
  loop consults, the accepted and the skipped lists come from two subsequences of the
  candidates, in the candidates' order, which together hold every candidate exactly
  once.
\<close>

theorem validation_partition:
  "consulted_parse patches comments \<longrightarrow>
   (\<exists>accepted skipped.
      validate_loop patches comments [] [] =
        Inr (map accepted_entry accepted, map skipped_entry skipped) \<and>
      mset accepted + mset skipped = mset comments \<and>
      subseq accepted comments \<and> subseq skipped comments)"
proof
  assume cp: "consulted_parse patches comments"
  let ?a = "filter (accepts patches) comments"
  let ?s = "filter (\<lambda>c. \<not> accepts patches c) comments"
  have "validate_loop patches comments [] [] = Inr (map accepted_entry ?a, map skipped_entry ?s)"
    using validate_loop_split[OF cp, of "[]" "[]"] by simp
  moreover have "mset ?a + mset ?s = mset comments" by simp
  moreover have "subseq ?a comments" "subseq ?s comments" by simp_all
  ultimately show "\<exists>accepted skipped.
      validate_loop patches comments [] [] =
        Inr (map accepted_entry accepted, map skipped_entry skipped) \<and>
      mset accepted + mset skipped = mset comments \<and>
      subseq accepted comments \<and> subseq skipped comments"
    by blast
qed

theorem validation_partition_witness:
  "consulted_parse (Some [''m.py'' \<mapsto> ''+x''])
     [\<lparr>c_path = Some ''m.py'', c_line = Some 5, c_body = None, c_side = None\<rparr>,
      \<lparr>c_path = Some ''n.py'', c_line = Some 9, c_body = None, c_side = None\<rparr>,
      \<lparr>c_path = Some ''m.py'', c_line = Some 0, c_body = None, c_side = None\<rparr>] \<and>
   validate_loop (Some [''m.py'' \<mapsto> ''+x''])
      [\<lparr>c_path = Some ''m.py'', c_line = Some 5, c_body = None, c_side = None\<rparr>,
       \<lparr>c_path = Some ''n.py'', c_line = Some 9, c_body = None, c_side = None\<rparr>,
       \<lparr>c_path = Some ''m.py'', c_line = Some 0, c_body = None, c_side = None\<rparr>] [] []
     = Inr (map accepted_entry
              [\<lparr>c_path = Some ''n.py'', c_line = Some 9, c_body = None, c_side = None\<rparr>,
               \<lparr>c_path = Some ''m.py'', c_line = Some 0, c_body = None, c_side = None\<rparr>],
            map skipped_entry
              [\<lparr>c_path = Some ''m.py'', c_line = Some 5, c_body = None, c_side = None\<rparr>]) \<and>
   (\<exists>accepted skipped.
      validate_loop (Some [''m.py'' \<mapsto> ''+x''])
        [\<lparr>c_path = Some ''m.py'', c_line = Some 5, c_body = None, c_side = None\<rparr>,
         \<lparr>c_path = Some ''n.py'', c_line = Some 9, c_body = None, c_side = None\<rparr>,
         \<lparr>c_path = Some ''m.py'', c_line = Some 0, c_body = None, c_side = None\<rparr>] [] []
        = Inr (map accepted_entry accepted, map skipped_entry skipped) \<and>
      mset accepted + mset skipped =
        mset [\<lparr>c_path = Some ''m.py'', c_line = Some 5, c_body = None, c_side = None\<rparr>,
              \<lparr>c_path = Some ''n.py'', c_line = Some 9, c_body = None, c_side = None\<rparr>,
              \<lparr>c_path = Some ''m.py'', c_line = Some 0, c_body = None, c_side = None\<rparr>] \<and>
      subseq accepted
        [\<lparr>c_path = Some ''m.py'', c_line = Some 5, c_body = None, c_side = None\<rparr>,
         \<lparr>c_path = Some ''n.py'', c_line = Some 9, c_body = None, c_side = None\<rparr>,
         \<lparr>c_path = Some ''m.py'', c_line = Some 0, c_body = None, c_side = None\<rparr>] \<and>
      subseq skipped
        [\<lparr>c_path = Some ''m.py'', c_line = Some 5, c_body = None, c_side = None\<rparr>,
         \<lparr>c_path = Some ''n.py'', c_line = Some 9, c_body = None, c_side = None\<rparr>,
         \<lparr>c_path = Some ''m.py'', c_line = Some 0, c_body = None, c_side = None\<rparr>])"
proof -
  let ?P = "Some [''m.py'' \<mapsto> ''+x'']"
  let ?c5 = "\<lparr>c_path = Some ''m.py'', c_line = Some 5, c_body = None, c_side = None\<rparr>"
  let ?c9 = "\<lparr>c_path = Some ''n.py'', c_line = Some 9, c_body = None, c_side = None\<rparr>"
  let ?c0 = "\<lparr>c_path = Some ''m.py'', c_line = Some 0, c_body = None, c_side = None\<rparr>"
  have p: "parse_patch_lines ''+x'' = Inr {0}" by (simp add: eval_defs)
  have cp: "consulted_parse ?P [?c5, ?c9, ?c0]"
    by (simp add: consulted_parse_def lookup_patch_def p)
  have v: "validate_loop ?P [?c5, ?c9, ?c0] [] []
     = Inr (map accepted_entry [?c9, ?c0], map skipped_entry [?c5])"
    by (simp add: lookup_patch_def line_in_def p)
  have e: "\<exists>accepted skipped.
      validate_loop ?P [?c5, ?c9, ?c0] [] []
        = Inr (map accepted_entry accepted, map skipped_entry skipped) \<and>
      mset accepted + mset skipped = mset [?c5, ?c9, ?c0] \<and>
      subseq accepted [?c5, ?c9, ?c0] \<and> subseq skipped [?c5, ?c9, ?c0]"
    using validation_partition [of ?P "[?c5, ?c9, ?c0]"] cp by blast
  from cp v e show ?thesis by blast
qed

text \<open>
  Claim C4, as stated, fails: with a patch whose hunk header has a new start of 4301
  digits, validation raises \<open>ValueError\<close>, and neither candidate ends up in an accepted
  or a skipped list.
\<close>

theorem validation_partition_counterexample:
  "validate_loop (Some [''b.py'' \<mapsto> overlong_patch])
      [\<lparr>c_path = Some ''b.py'', c_line = Some 2, c_body = None, c_side = None\<rparr>,
       \<lparr>c_path = Some ''b.py'', c_line = Some 3, c_body = None, c_side = None\<rparr>] [] []
     = Inl ValueError"
  by (simp add: lookup_patch_def overlong_patch_raises)

text \<open>
  Claim C5, as amended. Provided \<open>parse_patch_lines\<close> returns for every patch that the
  loop consults, a candidate whose path has no entry in \<open>patches\<close> is accepted and no
  skipped record carries its path. When \<open>patches\<close> is absent or empty, every candidate is
  accepted and nothing is skipped.
\<close>

theorem missing_patch_accepted:
  "(c \<in> set comments \<and> lookup_patch patches (c_path c) = None \<and>
    consulted_parse patches comments \<longrightarrow>
      (\<exists>acc skp. validate_loop patches comments [] [] = Inr (acc, skp) \<and>
         accepted_entry c \<in> set acc \<and> (\<forall>s\<in>set skp. sk_path s \<noteq> c_path c))) \<and>
   (patches = None \<or> patches = Some Map.empty \<longrightarrow>
      validate_loop patches comments [] [] = Inr (map accepted_entry comments, []))"
proof (intro conjI impI)
  assume h: "c \<in> set comments \<and> lookup_patch patches (c_path c) = None \<and>
    consulted_parse patches comments"
  let ?acc = "map accepted_entry (filter (accepts patches) comments)"
  let ?skp = "map skipped_entry (filter (\<lambda>c. \<not> accepts patches c) comments)"
  from h have cp: "consulted_parse patches comments" by simp
  have v: "validate_loop patches comments [] [] = Inr (?acc, ?skp)"
    using validate_loop_split[OF cp, of "[]" "[]"] by simp
  have "accepts patches c" using h by (simp add: accepts_def)
  then have a: "accepted_entry c \<in> set ?acc" using h by auto
  have "\<forall>s\<in>set ?skp. sk_path s \<noteq> c_path c"
  proof
    fix s assume "s \<in> set ?skp"
    then obtain c' where c': "\<not> accepts patches c'" "s = skipped_entry c'" by auto
    then have "lookup_patch patches (c_path c') \<noteq> None"
      by (auto simp: accepts_def split: option.splits)
    with h c' show "sk_path s \<noteq> c_path c" by (auto simp: skipped_entry_def)
  qed
  with v a show "\<exists>acc skp. validate_loop patches comments [] [] = Inr (acc, skp) \<and>
         accepted_entry c \<in> set acc \<and> (\<forall>s\<in>set skp. sk_path s \<noteq> c_path c)"
    by blast
next
  assume n: "patches = None \<or> patches = Some Map.empty"
  then have l: "\<And>c. lookup_patch patches (c_path c) = None"
    by (auto simp: lookup_patch_def split: option.splits)
  have a: "\<And>c. accepts patches c" by (simp add: accepts_def l)
  have "consulted_parse patches comments"
    by (simp add: consulted_parse_def l list_all_iff)
  then show "validate_loop patches comments [] [] = Inr (map accepted_entry comments, [])"
    using validate_loop_split[of patches comments "[]" "[]"] a by simp
qed

theorem missing_patch_accepted_witness:
  "lookup_patch (Some [''m.py'' \<mapsto> ''+x''])
     (c_path \<lparr>c_path = Some ''n.py'', c_line = Some 9, c_body = None, c_side = None\<rparr>) = None \<and>
   consulted_parse (Some [''m.py'' \<mapsto> ''+x''])
     [\<lparr>c_path = Some ''m.py'', c_line = Some 5, c_body = None, c_side = None\<rparr>,
      \<lparr>c_path = Some ''n.py'', c_line = Some 9, c_body = None, c_side = None\<rparr>] \<and>
   (\<exists>acc skp.
      validate_loop (Some [''m.py'' \<mapsto> ''+x''])
        [\<lparr>c_path = Some ''m.py'', c_line = Some 5, c_body = None, c_side = None\<rparr>,
         \<lparr>c_path = Some ''n.py'', c_line = Some 9, c_body = None, c_side = None\<rparr>] [] []
        = Inr (acc, skp) \<and>
      accepted_entry \<lparr>c_path = Some ''n.py'', c_line = Some 9, c_body = None, c_side = None\<rparr>
        \<in> set acc \<and>
      (\<forall>s\<in>set skp. sk_path s \<noteq> Some ''n.py'')) \<and>
   validate_loop None
     [\<lparr>c_path = Some ''m.py'', c_line = Some 5, c_body = None, c_side = None\<rparr>] [] []
     = Inr ([accepted_entry \<lparr>c_path = Some ''m.py'', c_line = Some 5, c_body = None, c_side = None\<rparr>], [])"
proof -
  let ?P = "Some [''m.py'' \<mapsto> ''+x'']"
  let ?c5 = "\<lparr>c_path = Some ''m.py'', c_line = Some 5, c_body = None, c_side = None\<rparr>"
  let ?c9 = "\<lparr>c_path = Some ''n.py'', c_line = Some 9, c_body = None, c_side = None\<rparr>"
  have p: "parse_patch_lines ''+x'' = Inr {0}" by (simp add: eval_defs)
  have l: "lookup_patch ?P (c_path ?c9) = None" by (simp add: lookup_patch_def)
  have cp: "consulted_parse ?P [?c5, ?c9]"
    by (simp add: consulted_parse_def lookup_patch_def p)
  have "?c9 \<in> set [?c5, ?c9]" by simp
  with l cp have e: "\<exists>acc skp. validate_loop ?P [?c5, ?c9] [] [] = Inr (acc, skp) \<and>
         accepted_entry ?c9 \<in> set acc \<and> (\<forall>s\<in>set skp. sk_path s \<noteq> c_path ?c9)"
    using missing_patch_accepted [of ?c9 "[?c5, ?c9]" ?P] by blast
  have n: "validate_loop None [?c5] [] [] = Inr ([accepted_entry ?c5], [])"
    using missing_patch_accepted [of ?c5 "[?c5]" None] by simp
  from l cp e n show ?thesis by simp
qed

text \<open>
  Claim C5, as stated, fails: the candidate for \<open>n.py\<close> has no patch entry, but it is not
  accepted, because the candidate before it has a patch whose hunk header has a new
  start of 4301 digits, on which validation raises \<open>ValueError\<close>.
\<close>

theorem missing_patch_accepted_counterexample:
  "lookup_patch (Some [''b.py'' \<mapsto> overlong_patch]) (Some ''n.py'') = None \<and>
   validate_loop (Some [''b.py'' \<mapsto> overlong_patch])
      [\<lparr>c_path = Some ''b.py'', c_line = Some 1, c_body = None, c_side = None\<rparr>,
       \<lparr>c_path = Some ''n.py'', c_line = Some 9, c_body = None, c_side = None\<rparr>] [] []
     = Inl ValueError"
  by (simp add: lookup_patch_def overlong_patch_raises)

text \<open>
  Claim C7. After validation (that is, when the validation loop has returned its two
  lists) \<open>create_review\<close> submits according to three cases: with accepted comments, one
  review with the given event, exactly those comments, and the body or, if the body is
  absent or empty, the text \<open>Automated code review\<close>; with no accepted comment and a body,
  an issue comment with that body; with neither, nothing, and no error.
\<close>

theorem create_review_cases:
  "(validate_loop patches comments [] [] = Inr (acc, skp) \<longrightarrow>
      create_review comments body event patches =
        Inr (if skp \<noteq> [] then Some (length skp) else None, submit acc body event)) \<and>
   (accepted \<noteq> [] \<and> body = Some b \<and> b \<noteq> [] \<longrightarrow>
      submit accepted body event = CreateReview b event accepted) \<and>
   (accepted \<noteq> [] \<and> (body = None \<or> body = Some []) \<longrightarrow>
      submit accepted body event = CreateReview ''Automated code review'' event accepted) \<and>
   (accepted = [] \<and> body = Some b \<and> b \<noteq> [] \<longrightarrow>
      submit accepted body event = CreateIssueComment b) \<and>
   (accepted = [] \<and> (body = None \<or> body = Some []) \<longrightarrow>
      submit accepted body event = NoSubmission)"
proof -
  have "validate_loop patches comments [] [] = Inr (acc, skp) \<longrightarrow>
      create_review comments body event patches =
        Inr (if skp \<noteq> [] then Some (length skp) else None, submit acc body event)"
    by (simp add: create_review_def)
  then show ?thesis by (auto simp: submit_def)
qed

theorem create_review_cases_witness:
  "validate_loop (Some [''m.py'' \<mapsto> ''+x''])
      [\<lparr>c_path = Some ''m.py'', c_line = Some 5, c_body = None, c_side = None\<rparr>] [] []
     = Inr ([], [skipped_entry
                   \<lparr>c_path = Some ''m.py'', c_line = Some 5, c_body = None, c_side = None\<rparr>]) \<and>
   create_review [\<lparr>c_path = Some ''m.py'', c_line = Some 5, c_body = None, c_side = None\<rparr>]
      None ''COMMENT'' (Some [''m.py'' \<mapsto> ''+x'']) = Inr (Some 1, NoSubmission) \<and>
   submit [accepted_entry \<lparr>c_path = Some ''m.py'', c_line = Some 5, c_body = None, c_side = None\<rparr>]
      (Some ''Summary'') ''COMMENT''
     = CreateReview ''Summary'' ''COMMENT''
         [accepted_entry \<lparr>c_path = Some ''m.py'', c_line = Some 5, c_body = None, c_side = None\<rparr>] \<and>
   submit [accepted_entry \<lparr>c_path = Some ''m.py'', c_line = Some 5, c_body = None, c_side = None\<rparr>]
      None ''COMMENT''
     = CreateReview ''Automated code review'' ''COMMENT''
         [accepted_entry \<lparr>c_path = Some ''m.py'', c_line = Some 5, c_body = None, c_side = None\<rparr>] \<and>
   submit [] (Some ''Summary'') ''COMMENT'' = CreateIssueComment ''Summary'' \<and>
   submit [] None ''COMMENT'' = NoSubmission"
proof -
  let ?c = "\<lparr>c_path = Some ''m.py'', c_line = Some 5, c_body = None, c_side = None\<rparr>"
  let ?P = "Some [''m.py'' \<mapsto> ''+x'']"
  have p: "parse_patch_lines ''+x'' = Inr {0}"
    by (simp add: eval_defs)
  have v: "validate_loop ?P [?c] [] [] = Inr ([], [skipped_entry ?c])"
    by (simp add: lookup_patch_def line_in_def p)
  have 1: "submit [accepted_entry ?c] (Some ''Summary'') ''COMMENT''
             = CreateReview ''Summary'' ''COMMENT'' [accepted_entry ?c]"
    using create_review_cases [of ?P "[?c]" "[]" "[skipped_entry ?c]" "Some ''Summary''"
        "''COMMENT''" "[accepted_entry ?c]" "''Summary''"]
    by simp
  have 2: "submit [accepted_entry ?c] None ''COMMENT''
             = CreateReview ''Automated code review'' ''COMMENT'' [accepted_entry ?c]"
    using create_review_cases [of ?P "[?c]" "[]" "[skipped_entry ?c]" None "''COMMENT''"
        "[accepted_entry ?c]" "''Summary''"]
    by simp
  have 3: "submit [] (Some ''Summary'') ''COMMENT'' = CreateIssueComment ''Summary''"
    using create_review_cases [of ?P "[?c]" "[]" "[skipped_entry ?c]" "Some ''Summary''"
        "''COMMENT''" "[]" "''Summary''"]
    by simp
  have 4: "submit [] None ''COMMENT'' = NoSubmission"
    using create_review_cases [of ?P "[?c]" "[]" "[skipped_entry ?c]" None "''COMMENT''" "[]"
        "''Summary''"]
    by simp
  have "create_review [?c] None ''COMMENT'' ?P =
          Inr (if [skipped_entry ?c] \<noteq> [] then Some (length [skipped_entry ?c]) else None,
               submit [] None ''COMMENT'')"
    using create_review_cases [of ?P "[?c]" "[]" "[skipped_entry ?c]" None "''COMMENT''" "[]"
        "''Summary''"] v
    by blast
  with 4 have 5: "create_review [?c] None ''COMMENT'' ?P = Inr (Some 1, NoSubmission)"
    by simp
  from v 1 2 3 4 5 show ?thesis by blast
qed

section \<open>The parallel analysis phase\<close>

text \<open>
  Claim C8. The analysis phase yields exactly one outcome per input file, whatever the
  order of completion. When fetching the content or the analysis raises for a file, that
  file's outcome is the failure triple with its name and the error message; otherwise it
  is the triple with its comments. The outcome of a file depends only on what the
  collaborators do for that file, so a failure elsewhere leaves it unchanged.
\<close>

theorem analysis_outcomes_isolated:
  "(mset completed = mset files \<longrightarrow>
      length (collect_results get analyze completed) = length files \<and>
      mset (collect_results get analyze completed)
        = image_mset (review_file get analyze) (mset files)) \<and>
   (get (fi_filename f) = Inl e \<longrightarrow>
      review_file get analyze f = (fi_filename f, None, Some e)) \<and>
   (get (fi_filename f) = Inr content \<and> analyze (fi_filename f) (fi_patch f) content = Inl e \<longrightarrow>
      review_file get analyze f = (fi_filename f, None, Some e)) \<and>
   (get (fi_filename f) = Inr content \<and>
    analyze (fi_filename f) (fi_patch f) content = Inr comments \<longrightarrow>
      review_file get analyze f = (fi_filename f, Some comments, None)) \<and>
   (get' (fi_filename g) = get (fi_filename g) \<and>
    (\<forall>content. analyze' (fi_filename g) (fi_patch g) content
                 = analyze (fi_filename g) (fi_patch g) content) \<longrightarrow>
      review_file get' analyze' g = review_file get analyze g)"
proof -
  have 1: "mset completed = mset files \<longrightarrow>
      length (collect_results get analyze completed) = length files \<and>
      mset (collect_results get analyze completed)
        = image_mset (review_file get analyze) (mset files)"
  proof
    assume m: "mset completed = mset files"
    then have "length completed = length files" by (rule mset_eq_length)
    moreover have "mset (map (review_file get analyze) completed)
        = image_mset (review_file get analyze) (mset files)"
      using m by simp
    ultimately show "length (collect_results get analyze completed) = length files \<and>
      mset (collect_results get analyze completed)
        = image_mset (review_file get analyze) (mset files)"
      by (simp add: collect_results_def)
  qed
  have 2: "get (fi_filename f) = Inl e \<longrightarrow>
      review_file get analyze f = (fi_filename f, None, Some e)"
    by (simp add: review_file_def)
  have 3: "get (fi_filename f) = Inr content \<and>
      analyze (fi_filename f) (fi_patch f) content = Inl e \<longrightarrow>
      review_file get analyze f = (fi_filename f, None, Some e)"
    by (simp add: review_file_def)
  have 4: "get (fi_filename f) = Inr content \<and>
    analyze (fi_filename f) (fi_patch f) content = Inr comments \<longrightarrow>
      review_file get analyze f = (fi_filename f, Some comments, None)"
    by (simp add: review_file_def)
  have 5: "get' (fi_filename g) = get (fi_filename g) \<and>
    (\<forall>content. analyze' (fi_filename g) (fi_patch g) content
                 = analyze (fi_filename g) (fi_patch g) content) \<longrightarrow>
      review_file get' analyze' g = review_file get analyze g"
    by (cases "get (fi_filename g)") (simp_all add: review_file_def)
  from 1 2 3 4 5 show ?thesis by blast
qed

theorem analysis_outcomes_isolated_witness:
  "mset [\<lparr>fi_filename = ''c.py'', fi_patch = ''+z''\<rparr>,
         \<lparr>fi_filename = ''a.py'', fi_patch = ''+x''\<rparr>,
         \<lparr>fi_filename = ''b.py'', fi_patch = ''+y''\<rparr>]
     = mset [\<lparr>fi_filename = ''a.py'', fi_patch = ''+x''\<rparr>,
             \<lparr>fi_filename = ''b.py'', fi_patch = ''+y''\<rparr>,
             \<lparr>fi_filename = ''c.py'', fi_patch = ''+z''\<rparr>] \<and>
   collect_results (\<lambda>n. if n = ''c.py'' then Inl ''Could not fetch file'' else Inr ''text'')
       (\<lambda>n p t. if n = ''b.py'' then Inl ''model failed'' else Inr [1::nat])
       [\<lparr>fi_filename = ''c.py'', fi_patch = ''+z''\<rparr>,
        \<lparr>fi_filename = ''a.py'', fi_patch = ''+x''\<rparr>,
        \<lparr>fi_filename = ''b.py'', fi_patch = ''+y''\<rparr>]
     = [(''c.py'', None, Some ''Could not fetch file''),
        (''a.py'', Some [1], None),
        (''b.py'', None, Some ''model failed'')] \<and>
   length (collect_results (\<lambda>n. if n = ''c.py'' then Inl ''Could not fetch file'' else Inr ''text'')
       (\<lambda>n p t. if n = ''b.py'' then Inl ''model failed'' else Inr [1::nat])
       [\<lparr>fi_filename = ''c.py'', fi_patch = ''+z''\<rparr>,
        \<lparr>fi_filename = ''a.py'', fi_patch = ''+x''\<rparr>,
        \<lparr>fi_filename = ''b.py'', fi_patch = ''+y''\<rparr>]) = 3 \<and>
   review_file (\<lambda>n. Inr ''text'') (\<lambda>n p t. Inr [1::nat])
       \<lparr>fi_filename = ''a.py'', fi_patch = ''+x''\<rparr>
     = review_file (\<lambda>n. if n = ''c.py'' then Inl ''Could not fetch file'' else Inr ''text'')
         (\<lambda>n p t. if n = ''b.py'' then Inl ''model failed'' else Inr [1::nat])
         \<lparr>fi_filename = ''a.py'', fi_patch = ''+x''\<rparr>"
proof -
  let ?a = "\<lparr>fi_filename = ''a.py'', fi_patch = ''+x''\<rparr>"
  let ?b = "\<lparr>fi_filename = ''b.py'', fi_patch = ''+y''\<rparr>"
  let ?c = "\<lparr>fi_filename = ''c.py'', fi_patch = ''+z''\<rparr>"
  let ?get = "\<lambda>n. if n = ''c.py'' then Inl ''Could not fetch file'' else Inr ''text''"
  let ?an = "\<lambda>n p t. if n = ''b.py'' then Inl ''model failed'' else Inr [1::nat]"
  have m: "mset [?c, ?a, ?b] = mset [?a, ?b, ?c]" by simp
  have fa: "review_file ?get ?an ?a = (''a.py'', Some [1], None)"
    using analysis_outcomes_isolated [of "[?c, ?a, ?b]" "[?a, ?b, ?c]" ?get ?an ?a
        "''none''" "''text''" "[1]" ?get ?a ?an]
    by simp
  have fb: "review_file ?get ?an ?b = (''b.py'', None, Some ''model failed'')"
    using analysis_outcomes_isolated [of "[?c, ?a, ?b]" "[?a, ?b, ?c]" ?get ?an ?b
        "''model failed''" "''text''" "[1]" ?get ?a ?an]
    by simp
  have fc: "review_file ?get ?an ?c = (''c.py'', None, Some ''Could not fetch file'')"
    using analysis_outcomes_isolated [of "[?c, ?a, ?b]" "[?a, ?b, ?c]" ?get ?an ?c
        "''Could not fetch file''" "''text''" "[1]" ?get ?a ?an]
    by simp
  have r: "collect_results ?get ?an [?c, ?a, ?b]
     = [(''c.py'', None, Some ''Could not fetch file''),
        (''a.py'', Some [1], None),
        (''b.py'', None, Some ''model failed'')]"
    using fa fb fc by (simp add: collect_results_def)
  have l: "length (collect_results ?get ?an [?c, ?a, ?b]) = 3"
    using analysis_outcomes_isolated [of "[?c, ?a, ?b]" "[?a, ?b, ?c]" ?get ?an ?a
        "''none''" "''text''" "[1]" ?get ?a ?an] m
    by simp
  have i: "review_file (\<lambda>n. Inr ''text'') (\<lambda>n p t. Inr [1::nat]) ?a = review_file ?get ?an ?a"
    using analysis_outcomes_isolated [of "[?c, ?a, ?b]" "[?a, ?b, ?c]" ?get ?an ?a
        "''none''" "''text''" "[1]" "\<lambda>n. Inr ''text''" ?a "\<lambda>n p t. Inr [1::nat]"]
    by simp
  from m r l i show ?thesis by blast
qed

section \<open>Dispatch to the model's \<open>review_code\<close>\<close>

lemma mro_lookup_BaseModel:
  "BaseModel \<in> set mro \<Longrightarrow> mro_lookup mro ''review_code'' \<noteq> None"
proof (induction mro)
  case Nil
  then show ?case by simp
next
  case (Cons c cs)
  show ?case
  proof (cases "cls_dict c ''review_code''")
    case (Some a)
    then show ?thesis by simp
  next
    case None
    then have "c \<noteq> BaseModel" by (auto simp: BaseModel_def)
    with Cons None show ?thesis by simp
  qed
qed

text \<open>
  Claim C10. For every instance of a class that has \<open>BaseModel\<close> in its method
  resolution order, \<open>hasattr(model, 'review_code')\<close> holds and \<open>analyze_file_changes\<close>
  returns what the call \<open>model.review_code\<close> returns on the same arguments: the fallback
  branch is not taken. Where no subclass overrides it, that is the empty list of
  \<open>BaseModel.review_code\<close>.
\<close>

theorem analyze_file_changes_dispatch:
  "(BaseModel \<in> set (obj_mro model) \<longrightarrow>
      py_hasattr model ''review_code'' \<and>
      analyze_file_changes model args = call_method model ''review_code'' args) \<and>
   (obj_mro model = [sub, BaseModel] \<and> obj_dict model ''review_code'' = None \<and>
    cls_dict sub ''review_code'' = None \<longrightarrow>
      analyze_file_changes model args = Inr (JArr []))"
proof (intro conjI impI)
  assume b: "BaseModel \<in> set (obj_mro model)"
  then have "mro_lookup (obj_mro model) ''review_code'' \<noteq> None"
    by (rule mro_lookup_BaseModel)
  then show "py_hasattr model ''review_code''"
    by (auto simp: py_hasattr_def py_getattr_def split: option.splits)
  then show "analyze_file_changes model args = call_method model ''review_code'' args"
    by (simp add: analyze_file_changes_def)
next
  assume h: "obj_mro model = [sub, BaseModel] \<and> obj_dict model ''review_code'' = None \<and>
    cls_dict sub ''review_code'' = None"
  then have "py_getattr model ''review_code'' = Some (Method BaseModel_review_code)"
    by (simp add: py_getattr_def BaseModel_def)
  then show "analyze_file_changes model args = Inr (JArr [])"
    by (simp add: analyze_file_changes_def py_hasattr_def call_method_def
        BaseModel_review_code_def)
qed

theorem analyze_file_changes_dispatch_witness:
  "BaseModel \<in> set (obj_mro \<lparr>obj_dict = Map.empty,
       obj_mro = [\<lparr>cls_name = ''ClaudeCodeModel'',
                   cls_dict = [''review_code'' \<mapsto> Method (\<lambda>args. Inr (JArr [JObj []]))]\<rparr>,
                  BaseModel]\<rparr>) \<and>
   analyze_file_changes \<lparr>obj_dict = Map.empty,
       obj_mro = [\<lparr>cls_name = ''ClaudeCodeModel'',
                   cls_dict = [''review_code'' \<mapsto> Method (\<lambda>args. Inr (JArr [JObj []]))]\<rparr>,
                  BaseModel]\<rparr> (''a.py'', ''+x'', ''x'', [])
     = Inr (JArr [JObj []]) \<and>
   analyze_file_changes \<lparr>obj_dict = Map.empty,
       obj_mro = [\<lparr>cls_name = ''PlainModel'', cls_dict = Map.empty\<rparr>, BaseModel]\<rparr>
       (''a.py'', ''+x'', ''x'', [])
     = Inr (JArr [])"
proof -
  let ?sub = "\<lparr>cls_name = ''ClaudeCodeModel'',
                cls_dict = [''review_code'' \<mapsto> Method (\<lambda>args. Inr (JArr [JObj []]))]\<rparr>"
  let ?m = "\<lparr>obj_dict = Map.empty, obj_mro = [?sub, BaseModel]\<rparr>"
  let ?plain = "\<lparr>cls_name = ''PlainModel'', cls_dict = Map.empty\<rparr>"
  let ?n = "\<lparr>obj_dict = Map.empty, obj_mro = [?plain, BaseModel]\<rparr>"
  let ?args = "(''a.py'', ''+x'', ''x'', [])"
  have b: "BaseModel \<in> set (obj_mro ?m)" by simp
  have "analyze_file_changes ?m ?args = call_method ?m ''review_code'' ?args"
    using analyze_file_changes_dispatch [of ?m ?args ?sub] b by blast
  then have 1: "analyze_file_changes ?m ?args = Inr (JArr [JObj []])"
    by (simp add: call_method_def py_getattr_def)
  have "obj_mro ?n = [?plain, BaseModel] \<and> obj_dict ?n ''review_code'' = None \<and>
      cls_dict ?plain ''review_code'' = None"
    by simp
  then have 2: "analyze_file_changes ?n ?args = Inr (JArr [])"
    using analyze_file_changes_dispatch [of ?n ?args ?plain] by blast
  from b 1 2 show ?thesis by blast
qed

section \<open>Extraction of the JSON text from a response\<close>

lemma py_find_eq:
  "py_find s c = (if c \<in> set s then int (length (takeWhile (\<lambda>x. x \<noteq> c) s)) else -1)"
  by (induction s) (auto simp: Let_def)

lemma py_rfind_eq:
  "py_rfind s c =
     (if c \<in> set s then int (length s) - 1 - int (length (takeWhile (\<lambda>x. x \<noteq> c) (rev s)))
      else -1)"
  by (simp add: py_rfind_def py_find_eq Let_def)

lemma takeWhile_length_less:
  "c \<in> set t \<Longrightarrow> length (takeWhile (\<lambda>x. x \<noteq> c) t) < length t"
  by (induction t) auto

lemma rev_dropWhile_rev:
  "rev (dropWhile P (rev t)) = take (length t - length (takeWhile P (rev t))) t"
proof -
  have "dropWhile P (rev t) = drop (length (takeWhile P (rev t))) (rev t)"
    by (rule dropWhile_eq_drop)
  then show ?thesis by (simp add: rev_drop)
qed

lemma extract_slice:
  assumes "opn \<noteq> cls"
  shows "(if py_find s opn \<noteq> -1 \<and> py_rfind s cls + 1 > py_find s opn
          then Some (py_slice s (py_find s opn) (py_rfind s cls + 1)) else None)
         = between_first_last opn cls s"
proof -
  define pre where "pre = takeWhile (\<lambda>x. x \<noteq> opn) s"
  define t where "t = dropWhile (\<lambda>x. x \<noteq> opn) s"
  have s: "s = pre @ t" by (simp add: pre_def t_def)
  have npre: "opn \<notin> set pre" by (auto simp: pre_def dest: set_takeWhileD)
  show ?thesis
  proof (cases "opn \<in> set s")
    case False
    then have "t = []" by (auto simp: t_def)
    with False show ?thesis
      by (simp add: py_find_eq between_first_last_def Let_def flip: t_def)
  next
    case True
    then have i: "py_find s opn = int (length pre)" by (simp add: py_find_eq pre_def)
    show ?thesis
    proof (cases "cls \<in> set t")
      case ct: True
      define k where "k = length (takeWhile (\<lambda>x. x \<noteq> cls) (rev t))"
      have kt: "k < length t" using ct takeWhile_length_less[of cls "rev t"] by (simp add: k_def)
      have "takeWhile (\<lambda>x. x \<noteq> cls) (rev s) = takeWhile (\<lambda>x. x \<noteq> cls) (rev t)"
        using ct by (simp add: s takeWhile_append1[where x = cls])
      then have j: "py_rfind s cls = int (length s) - 1 - int k"
        using ct by (simp add: py_rfind_eq s k_def)
      have gt: "py_rfind s cls + 1 > py_find s opn"
        using i j kt by (simp add: s)
      have "nat (py_rfind s cls + 1 - py_find s opn) = length t - k"
        using i j kt by (simp add: s)
      then have sl: "py_slice s (py_find s opn) (py_rfind s cls + 1) = take (length t - k) t"
        using i by (simp add: py_slice_def s)
      have u: "rev (dropWhile (\<lambda>x. x \<noteq> cls) (rev t)) = take (length t - k) t"
        by (simp add: rev_dropWhile_rev k_def)
      have ne: "take (length t - k) t \<noteq> []" using kt by auto
      have "between_first_last opn cls s = Some (take (length t - k) t)"
        unfolding between_first_last_def Let_def t_def[symmetric] u using ne by simp
      with gt i sl show ?thesis by simp
    next
      case nt: False
      then have u: "rev (dropWhile (\<lambda>x. x \<noteq> cls) (rev t)) = []" by auto
      have "py_rfind s cls + 1 \<le> py_find s opn"
      proof (cases "cls \<in> set pre")
        case False
        with nt have "cls \<notin> set s" by (simp add: s)
        then show ?thesis using i by (simp add: py_rfind_eq)
      next
        case True
        have "takeWhile (\<lambda>x. x \<noteq> cls) (rev s)
              = rev t @ takeWhile (\<lambda>x. x \<noteq> cls) (rev pre)"
        proof -
          have "takeWhile (\<lambda>x. x \<noteq> cls) (rev t @ rev pre)
              = rev t @ takeWhile (\<lambda>x. x \<noteq> cls) (rev pre)"
            using nt by (intro takeWhile_append2) auto
          then show ?thesis by (simp add: s)
        qed
        then have "py_rfind s cls
              = int (length pre) - 1 - int (length (takeWhile (\<lambda>x. x \<noteq> cls) (rev pre)))"
          using True by (simp add: py_rfind_eq s)
        then show ?thesis using i by simp
      qed
      moreover have "between_first_last opn cls s = None"
        unfolding between_first_last_def Let_def t_def[symmetric] u by simp
      ultimately show ?thesis by simp
    qed
  qed
qed

lemma between_first_last_shape:
  assumes "between_first_last opn cls s = Some u" and "opn \<noteq> cls"
  shows "\<exists>pre mid post. s = pre @ u @ post \<and> u = opn # mid @ [cls] \<and>
           opn \<notin> set pre \<and> cls \<notin> set post"
proof -
  define pre where "pre = takeWhile (\<lambda>x. x \<noteq> opn) s"
  define t where "t = dropWhile (\<lambda>x. x \<noteq> opn) s"
  define post where "post = rev (takeWhile (\<lambda>x. x \<noteq> cls) (rev t))"
  define d where "d = dropWhile (\<lambda>x. x \<noteq> cls) (rev t)"
  have u: "u = rev d" and une: "u \<noteq> []"
    using assms(1)
    by (auto simp: between_first_last_def Let_def t_def d_def split: if_splits)
  have s: "s = pre @ t" by (simp add: pre_def t_def)
  have "rev t = takeWhile (\<lambda>x. x \<noteq> cls) (rev t) @ d" by (simp add: d_def)
  then have "rev (rev t) = rev (takeWhile (\<lambda>x. x \<noteq> cls) (rev t) @ d)" by simp
  then have t: "t = u @ post" by (simp add: u post_def)
  have npre: "opn \<notin> set pre" by (auto simp: pre_def dest: set_takeWhileD)
  have npost: "cls \<notin> set post" by (auto simp: post_def dest: set_takeWhileD)
  have dne: "d \<noteq> []" using une u by simp
  then have "hd d = cls" using hd_dropWhile[of "\<lambda>x. x \<noteq> cls" "rev t"] by (simp add: d_def)
  then have lastu: "last u = cls" using dne by (simp add: u last_rev)
  have tne: "t \<noteq> []" using t une by simp
  then have "hd t = opn" using hd_dropWhile[of "\<lambda>x. x \<noteq> opn" s] by (simp add: t_def)
  then have hdu: "hd u = opn" using t une by simp
  obtain r where r: "u = opn # r" using hdu une by (cases u) auto
  have "r \<noteq> []" using r lastu assms(2) by auto
  then obtain mid where "r = mid @ [last r]" by (metis append_butlast_last_id)
  moreover have "last r = cls" using r lastu \<open>r \<noteq> []\<close> by simp
  ultimately have "u = opn # mid @ [cls]" using r by simp
  with s t npre npost show ?thesis by auto
qed

lemma between_first_last_whole:
  "opn \<noteq> cls \<Longrightarrow> between_first_last opn cls (opn # mid @ [cls]) = Some (opn # mid @ [cls])"
  by (simp add: between_first_last_def)

lemma analyze_review_parse_eq:
  "analyze_review_parse json_loads response =
     (case between_first_last CHR ''{'' CHR ''}'' response of
        None \<Rightarrow> Inr default_analysis
      | Some json_str \<Rightarrow>
          (case json_loads json_str of
             Inr v \<Rightarrow> Inr v
           | Inl e \<Rightarrow> if e = JSONDecodeError then Inr default_analysis else Inl e))"
proof -
  have b: "CHR ''{'' \<noteq> CHR ''}''" by simp
  show ?thesis
    unfolding extract_slice[OF b, of response, symmetric]
    by (simp add: analyze_review_parse_def Let_def)
qed

text \<open>
  Claim C9, as amended. Parsing the model's response falls back to a safe default.
  \<open>analyze_review\<close> takes the text from the first \<open>{\<close> to the last \<open>}\<close> of the response;
  when there is no such text, or \<open>json.loads\<close> rejects it with \<open>JSONDecodeError\<close>, the
  result is the default with action \<open>no_action\<close>, reasoning \<open>Could not parse response\<close> and
  no changes; otherwise it is the decoded value. It raises nothing as long as
  \<open>json.loads\<close> raises no exception other than \<open>JSONDecodeError\<close>. \<open>review_code\<close> takes the
  text from the first \<open>[\<close> to the last \<open>]\<close> and returns the empty list when there is
  none, when decoding fails, or when the call of the model fails; it never raises.
\<close>

theorem response_parsing_fallback:
  "default_analysis =
     JObj [(''action'', JStr ''no_action''),
           (''reasoning'', JStr ''Could not parse response''),
           (''changes'', JArr [])] \<and>
   (between_first_last CHR ''{'' CHR ''}'' response = None \<longrightarrow>
      analyze_review_parse json_loads response = Inr default_analysis) \<and>
   (between_first_last CHR ''{'' CHR ''}'' response = Some js \<and>
    json_loads js = Inl JSONDecodeError \<longrightarrow>
      analyze_review_parse json_loads response = Inr default_analysis) \<and>
   (between_first_last CHR ''{'' CHR ''}'' response = Some js \<and> json_loads js = Inr v \<longrightarrow>
      analyze_review_parse json_loads response = Inr v) \<and>
   ((\<forall>s e. json_loads s = Inl e \<longrightarrow> e = JSONDecodeError) \<longrightarrow>
      (\<exists>v. analyze_review_parse json_loads response = Inr v)) \<and>
   review_code_parse json_loads (Inr response) =
     (case between_first_last CHR ''['' CHR '']'' response of
        None \<Rightarrow> JArr []
      | Some json_str \<Rightarrow>
          (case json_loads json_str of
             Inl e \<Rightarrow> JArr []
           | Inr comments \<Rightarrow>
               (case add_side_all comments of Inl e \<Rightarrow> JArr [] | Inr cs \<Rightarrow> cs))) \<and>
   review_code_parse json_loads (Inl err) = JArr [] \<and>
   (between_first_last opn cls response = Some json_str \<and> opn \<noteq> cls \<longrightarrow>
      (\<exists>pre mid post. response = pre @ json_str @ post \<and> json_str = opn # mid @ [cls] \<and>
         opn \<notin> set pre \<and> cls \<notin> set post))"
proof -
  have b: "CHR ''['' \<noteq> CHR '']''" by simp
  have 0: "default_analysis =
     JObj [(''action'', JStr ''no_action''),
           (''reasoning'', JStr ''Could not parse response''),
           (''changes'', JArr [])]"
    by (simp add: default_analysis_def)
  have 1: "between_first_last CHR ''{'' CHR ''}'' response = None \<longrightarrow>
      analyze_review_parse json_loads response = Inr default_analysis"
    by (simp add: analyze_review_parse_eq)
  have 2: "between_first_last CHR ''{'' CHR ''}'' response = Some js \<and>
    json_loads js = Inl JSONDecodeError \<longrightarrow>
      analyze_review_parse json_loads response = Inr default_analysis"
    by (simp add: analyze_review_parse_eq)
  have 3: "between_first_last CHR ''{'' CHR ''}'' response = Some js \<and> json_loads js = Inr v \<longrightarrow>
      analyze_review_parse json_loads response = Inr v"
    by (simp add: analyze_review_parse_eq)
  have 4: "(\<forall>s e. json_loads s = Inl e \<longrightarrow> e = JSONDecodeError) \<longrightarrow>
      (\<exists>v. analyze_review_parse json_loads response = Inr v)"
    by (auto simp: analyze_review_parse_def Let_def split: sum.splits)
  have 5: "review_code_parse json_loads (Inr response) =
     (case between_first_last CHR ''['' CHR '']'' response of
        None \<Rightarrow> JArr []
      | Some json_str \<Rightarrow>
          (case json_loads json_str of
             Inl e \<Rightarrow> JArr []
           | Inr comments \<Rightarrow>
               (case add_side_all comments of Inl e \<Rightarrow> JArr [] | Inr cs \<Rightarrow> cs)))"
    unfolding extract_slice[OF b, of response, symmetric]
    by (simp add: review_code_parse_def Let_def)
  have 6: "review_code_parse json_loads (Inl err) = JArr []"
    by (simp add: review_code_parse_def)
  have 7: "between_first_last opn cls response = Some json_str \<and> opn \<noteq> cls \<longrightarrow>
      (\<exists>pre mid post. response = pre @ json_str @ post \<and> json_str = opn # mid @ [cls] \<and>
         opn \<notin> set pre \<and> cls \<notin> set post)"
    using between_first_last_shape by blast
  from 0 1 2 3 4 5 6 7 show ?thesis by blast
qed

theorem response_parsing_fallback_witness:
  "between_first_last CHR ''{'' CHR ''}'' ''ok {} done'' = Some ''{}'' \<and>
   between_first_last CHR ''{'' CHR ''}'' ''} no {'' = None \<and>
   between_first_last CHR ''{'' CHR ''}'' ''{oops}'' = Some ''{oops}'' \<and>
   analyze_review_parse
     (\<lambda>s. if s = ''{}'' then Inr (JObj []) else if s = ''[{}]'' then Inr (JArr [JObj []])
          else Inl JSONDecodeError) ''ok {} done'' = Inr (JObj []) \<and>
   analyze_review_parse
     (\<lambda>s. if s = ''{}'' then Inr (JObj []) else if s = ''[{}]'' then Inr (JArr [JObj []])
          else Inl JSONDecodeError) ''} no {''
     = Inr (JObj [(''action'', JStr ''no_action''),
                  (''reasoning'', JStr ''Could not parse response''),
                  (''changes'', JArr [])]) \<and>
   analyze_review_parse
     (\<lambda>s. if s = ''{}'' then Inr (JObj []) else if s = ''[{}]'' then Inr (JArr [JObj []])
          else Inl JSONDecodeError) ''{oops}''
     = Inr (JObj [(''action'', JStr ''no_action''),
                  (''reasoning'', JStr ''Could not parse response''),
                  (''changes'', JArr [])]) \<and>
   review_code_parse
     (\<lambda>s. if s = ''{}'' then Inr (JObj []) else if s = ''[{}]'' then Inr (JArr [JObj []])
          else Inl JSONDecodeError) (Inr ''x [{}] y'')
     = JArr [JObj [(''side'', JStr ''RIGHT'')]] \<and>
   review_code_parse
     (\<lambda>s. if s = ''{}'' then Inr (JObj []) else if s = ''[{}]'' then Inr (JArr [JObj []])
          else Inl JSONDecodeError) (Inr ''[oops]'') = JArr [] \<and>
   review_code_parse
     (\<lambda>s. if s = ''{}'' then Inr (JObj []) else if s = ''[{}]'' then Inr (JArr [JObj []])
          else Inl JSONDecodeError) (Inr ''none'') = JArr []"
proof -
  let ?jl = "\<lambda>s. if s = ''{}'' then Inr (JObj []) else if s = ''[{}]'' then Inr (JArr [JObj []])
          else Inl JSONDecodeError"
  let ?d = "JObj [(''action'', JStr ''no_action''),
                  (''reasoning'', JStr ''Could not parse response''),
                  (''changes'', JArr [])]"
  have c: "\<forall>s e. ?jl s = Inl e \<longrightarrow> e = JSONDecodeError" by simp
  have b1: "between_first_last CHR ''{'' CHR ''}'' ''ok {} done'' = Some ''{}''"
    by (simp add: between_first_last_def)
  have b2: "between_first_last CHR ''{'' CHR ''}'' ''} no {'' = None"
    by (simp add: between_first_last_def)
  have b3: "between_first_last CHR ''{'' CHR ''}'' ''{oops}'' = Some ''{oops}''"
    by (simp add: between_first_last_def)
  have b4: "between_first_last CHR ''['' CHR '']'' ''x [{}] y'' = Some ''[{}]''"
    by (simp add: between_first_last_def)
  have b5: "between_first_last CHR ''['' CHR '']'' ''[oops]'' = Some ''[oops]''"
    by (simp add: between_first_last_def)
  have b6: "between_first_last CHR ''['' CHR '']'' ''none'' = None"
    by (simp add: between_first_last_def)
  have j1: "?jl ''{}'' = Inr (JObj [])" and j3: "?jl ''{oops}'' = Inl JSONDecodeError"
    by simp_all
  note t1 = response_parsing_fallback [where json_loads = ?jl and response = "''ok {} done''"
      and js = "''{}''" and v = "JObj []" and opn = "CHR ''{''" and cls = "CHR ''}''"
      and json_str = "''{}''"]
  note t2 = response_parsing_fallback [where json_loads = ?jl and response = "''} no {''"
      and js = "''{}''" and v = "JObj []" and opn = "CHR ''{''" and cls = "CHR ''}''"
      and json_str = "''{}''"]
  note t3 = response_parsing_fallback [where json_loads = ?jl and response = "''{oops}''"
      and js = "''{oops}''" and v = "JObj []" and opn = "CHR ''{''" and cls = "CHR ''}''"
      and json_str = "''{oops}''"]
  from t1 b1 j1 have 1: "analyze_review_parse ?jl ''ok {} done'' = Inr (JObj [])" by blast
  from t2 have d: "default_analysis = ?d" by blast
  from t2 b2 have "analyze_review_parse ?jl ''} no {'' = Inr default_analysis" by blast
  with d have 2: "analyze_review_parse ?jl ''} no {'' = Inr ?d" by simp
  from t3 b3 j3 have "analyze_review_parse ?jl ''{oops}'' = Inr default_analysis" by blast
  with d have 3: "analyze_review_parse ?jl ''{oops}'' = Inr ?d" by simp
  from t3 c have "\<exists>v. analyze_review_parse ?jl ''{oops}'' = Inr v" by blast
  have 4: "review_code_parse ?jl (Inr ''x [{}] y'') = JArr [JObj [(''side'', JStr ''RIGHT'')]]"
    using response_parsing_fallback [where json_loads = ?jl and response = "''x [{}] y''"] b4
    by (simp add: add_side_all_def)
  have 5: "review_code_parse ?jl (Inr ''[oops]'') = JArr []"
    using response_parsing_fallback [where json_loads = ?jl and response = "''[oops]''"] b5
    by simp
  have 6: "review_code_parse ?jl (Inr ''none'') = JArr []"
    using response_parsing_fallback [where json_loads = ?jl and response = "''none''"] b6
    by simp
  from b1 b2 b3 1 2 3 4 5 6 show ?thesis by blast
qed

text \<open>
  Claim C9, as stated, fails for \<open>analyze_review\<close>: it catches only \<open>JSONDecodeError\<close>. On
  a response whose JSON text opens an object and then nests 100000 lists, \<open>json.loads\<close>
  raises \<open>RecursionError\<close>, and \<open>analyze_review\<close> raises it too instead of returning the
  default. The decoder below stands for \<open>json.loads\<close> on that text.
\<close>

theorem response_parsing_fallback_counterexample:
  "between_first_last CHR ''{'' CHR ''}'' deep_response = Some deep_response \<and>
   analyze_review_parse
     (\<lambda>s. if s = deep_response then Inl RecursionError else Inl JSONDecodeError) deep_response
     = Inl RecursionError"
proof -
  have "CHR ''{'' \<noteq> CHR ''}''" by simp
  then have b: "between_first_last CHR ''{'' CHR ''}'' deep_response = Some deep_response"
    unfolding deep_response_def by (rule between_first_last_whole)
  then show ?thesis by (simp add: analyze_review_parse_eq)
qed

end
